theory Spec2Isabelle
  imports Complex_Main "HOL-Library.Log_Nat"
begin

section \<open>JavaScript values used by the two components\<close>

text \<open>
  A JavaScript string is falsy exactly when it is empty; \<open>null\<close> and \<open>undefined\<close>
  (here \<open>None\<close>) are falsy too.
\<close>

definition truthy :: "string option \<Rightarrow> bool" where
  "truthy v = (case v of None \<Rightarrow> False | Some s \<Rightarrow> s \<noteq> [])"

text \<open>\<open>String.prototype.startsWith\<close>.\<close>

definition startsWith :: "string \<Rightarrow> string \<Rightarrow> bool" where
  "startsWith s p = (take (length p) s = p)"

text \<open>
  The text of the tags input is kept as JavaScript keeps it, as a list of UTF-16 code
  units. \<open>String.prototype.trim\<close> strips the code units of WhiteSpace and
  LineTerminator from both ends: TAB, LF, VT, FF, CR, SP, NBSP, U+1680, U+2000 to U+200A,
  LS, PS, U+202F, U+205F, U+3000 and U+FEFF.
\<close>

type_synonym js_string = "nat list"

definition is_space :: "nat \<Rightarrow> bool" where
  "is_space c =
     (c \<in> set [0x0009, 0x000A, 0x000B, 0x000C, 0x000D, 0x0020, 0x00A0, 0x1680,
                0x2028, 0x2029, 0x202F, 0x205F, 0x3000, 0xFEFF]
      \<or> (0x2000 \<le> c \<and> c \<le> 0x200A))"

definition trim :: "js_string \<Rightarrow> js_string" where
  "trim s = rev (dropWhile is_space (rev (dropWhile is_space s)))"

text \<open>Decimal rendering of a number inside a template literal.\<close>

fun digits_of :: "nat \<Rightarrow> string" where
  "digits_of n =
     (if n < 10 then [char_of (48 + n)]
      else digits_of (n div 10) @ [char_of (48 + n mod 10)])"

declare digits_of.simps [simp del]

text \<open>
  What \<open>JSON.parse\<close> makes of a response body, as far as the code looks at it:
  a syntax error, the value \<open>null\<close> (whose property reads throw a TypeError), or
  any other value with its \<open>file?.id\<close> and \<open>error?.message\<close>.
\<close>

datatype parsed_json =
    InvalidJson
  | JsonNull
  | JsonValue (json_file_id: "string option") (json_error_message: "string option")

datatype 'a promise_result = Resolved 'a | Rejected string

datatype req_body =
    NoBody
  | FormData string "js_string option"
  | JsonFolderId string

record http_request =
  req_method :: string
  req_url :: string
  req_headers :: "(string \<times> string) list"
  req_timeout :: nat
  req_body :: req_body

section \<open>Upload coordinator (component \<open>UploadButton\<close>)\<close>

datatype upload_status = Uploading | Completed | Error

text \<open>
  The \<open>progress\<close> field holds what \<open>Math.round\<close> returned: an integer, or
  a non-finite number when the event's \<open>total\<close> is zero.
\<close>

datatype js_number = Num int | NaN | PosInfinity

record UploadProgressItem =
  item_id :: string
  item_name :: string
  progress :: js_number
  item_size :: nat
  status :: upload_status

record local_file =
  file_name :: string
  file_size :: nat

text \<open>
  The values the callback \<open>uploadFile\<close> closes over: the auth token, the
  \<open>folderId\<close> property, the tags input, and the REST base URL of the environment.
\<close>

record upload_props =
  token :: "string option"
  folderId :: "string option"
  tags :: js_string
  restBaseUrl :: string

datatype toast_type = ToastSuccess | ToastError

datatype phase = AwaitXhr | AwaitMove | Settled

text \<open>One running invocation of \<open>uploadFile\<close>, suspended at an \<open>await\<close>.\<close>

record upload_call =
  call_uploadId :: string
  call_file :: local_file
  call_props :: upload_props
  call_phase :: phase

record upload_state =
  uploads :: "UploadProgressItem list"
  calls :: "upload_call list"
  requests :: "http_request list"
  toasts :: "(toast_type \<times> string) list"
  refreshes :: nat
  timers :: "string list"

definition init_upload_state :: upload_state where
  "init_upload_state =
     \<lparr>uploads = [], calls = [], requests = [], toasts = [], refreshes = 0, timers = []\<rparr>"

subsection \<open>The three state updaters passed to \<open>setUploads\<close>\<close>

definition set_error :: "string \<Rightarrow> UploadProgressItem list \<Rightarrow> UploadProgressItem list" where
  "set_error uploadId prev =
     map (\<lambda>upload. if item_id upload = uploadId then upload\<lparr>status := Error\<rparr> else upload) prev"

definition set_progress ::
  "string \<Rightarrow> js_number \<Rightarrow> UploadProgressItem list \<Rightarrow> UploadProgressItem list" where
  "set_progress uploadId p prev =
     map (\<lambda>upload. if item_id upload = uploadId then upload\<lparr>progress := p\<rparr> else upload) prev"

definition set_completed :: "string \<Rightarrow> UploadProgressItem list \<Rightarrow> UploadProgressItem list" where
  "set_completed uploadId prev =
     map (\<lambda>upload. if item_id upload = uploadId
                    then upload\<lparr>progress := Num 100, status := Completed\<rparr> else upload) prev"

definition remove_item :: "string \<Rightarrow> UploadProgressItem list \<Rightarrow> UploadProgressItem list" where
  "remove_item uploadId prev = filter (\<lambda>upload. item_id upload \<noteq> uploadId) prev"

subsection \<open>IEEE 754 double precision, as far as \<open>onprogress\<close> needs it\<close>

text \<open>
  JavaScript numbers are binary64 floating-point numbers. \<open>fl x\<close> is the double nearest
  to the rational \<open>x\<close> (ties to even) with a 53-bit significand and an unbounded
  exponent; it agrees with binary64 on the normal range, which the quotient of two byte
  counts and its product with 100 never leave.
\<close>

definition round_half_even :: "rat \<Rightarrow> int" where
  "round_half_even r =
     (let f = \<lfloor>r\<rfloor>; d = r - of_int f
      in if d < 1 / 2 then f else if 1 / 2 < d then f + 1 else if even f then f else f + 1)"

definition binade :: "rat \<Rightarrow> int" where
  "binade x =
     (let (p, q) = quotient_of x; k = bitlen p - bitlen q
      in if 2 powi k \<le> x then k else k - 1)"

definition fl :: "rat \<Rightarrow> rat" where
  "fl x =
     (if x = 0 then 0
      else let a = \<bar>x\<bar>; e = binade a;
               m = round_half_even (a * 2 powi (52 - e))
           in sgn x * of_int m * 2 powi (e - 52))"

text \<open>\<open>Math.round\<close>: the nearest integer, a tie going up.\<close>

definition Math_round :: "rat \<Rightarrow> int" where
  "Math_round x = \<lfloor>x + 1 / 2\<rfloor>"

text \<open>
  \<open>Math.round((event.loaded / event.total) * 100)\<close> for a positive total: the two
  byte counts become doubles, and the quotient and the product are rounded to doubles.
\<close>

definition percent :: "nat \<Rightarrow> nat \<Rightarrow> int" where
  "percent loaded tot = Math_round (fl (fl (fl (of_nat loaded) / fl (of_nat tot)) * 100))"

text \<open>With a total of zero the quotient is \<open>NaN\<close> or \<open>Infinity\<close>, and so is the result.\<close>

definition progress_of :: "nat \<Rightarrow> nat \<Rightarrow> js_number" where
  "progress_of loaded tot =
     (if tot = 0 then (if loaded = 0 then NaN else PosInfinity)
      else Num (percent loaded tot))"

subsection \<open>\<open>uploadFile\<close>\<close>

definition upload_request :: "upload_props \<Rightarrow> local_file \<Rightarrow> http_request" where
  "upload_request props file =
     \<lparr>req_method = ''POST'',
      req_url = restBaseUrl props @ ''/files'',
      req_headers = [(''Authorization'', ''Bearer '' @ the (token props))],
      req_timeout = 60000,
      req_body = FormData (file_name file)
                   (if trim (tags props) \<noteq> [] then Some (trim (tags props)) else None)\<rparr>"

definition move_request :: "upload_props \<Rightarrow> string \<Rightarrow> http_request" where
  "move_request props file_id =
     \<lparr>req_method = ''PATCH'',
      req_url = restBaseUrl props @ ''/files/'' @ file_id @ ''/move'',
      req_headers = [(''Authorization'', ''Bearer '' @ the (token props)),
                     (''Content-Type'', ''application/json'')],
      req_timeout = 0,
      req_body = JsonFolderId (the (folderId props))\<rparr>"

text \<open>
  The synchronous part of \<open>uploadFile\<close>: without a token the task is marked
  \<open>error\<close> and the function returns; otherwise the XMLHttpRequest is sent and the
  invocation waits for it.
\<close>

definition uploadFile :: "upload_props \<Rightarrow> string \<Rightarrow> local_file \<Rightarrow> upload_state \<Rightarrow> upload_state" where
  "uploadFile props uploadId file s =
     (if \<not> truthy (token props)
      then s\<lparr>uploads := set_error uploadId (uploads s),
             toasts := toasts s @ [(ToastError, ''Authentication required for file upload'')]\<rparr>
      else s\<lparr>requests := requests s @ [upload_request props file],
             calls := calls s @ [\<lparr>call_uploadId = uploadId, call_file = file,
                                  call_props = props, call_phase = AwaitXhr\<rparr>]\<rparr>)"

text \<open>The handlers \<open>xhr.onload\<close>, \<open>xhr.onerror\<close> and \<open>xhr.ontimeout\<close> settle the promise.\<close>

definition upload_failed_text :: "nat \<Rightarrow> string \<Rightarrow> string" where
  "upload_failed_text st statusText = ''Upload failed: '' @ digits_of st @ '' '' @ statusText"

definition xhr_onload :: "nat \<Rightarrow> string \<Rightarrow> parsed_json \<Rightarrow> parsed_json promise_result" where
  "xhr_onload st statusText body =
     (if 200 \<le> st \<and> st < 300
      then (case body of InvalidJson \<Rightarrow> Rejected ''Invalid JSON response'' | _ \<Rightarrow> Resolved body)
      else (case body of
              JsonValue _ msg \<Rightarrow>
                Rejected (if truthy msg then the msg else upload_failed_text st statusText)
            | _ \<Rightarrow> Rejected (upload_failed_text st statusText)))"

definition xhr_onerror :: "parsed_json promise_result" where
  "xhr_onerror = Rejected ''Network error during upload''"

definition xhr_ontimeout :: "parsed_json promise_result" where
  "xhr_ontimeout = Rejected ''Upload timeout''"

definition set_phase :: "nat \<Rightarrow> phase \<Rightarrow> upload_state \<Rightarrow> upload_state" where
  "set_phase c ph s = s\<lparr>calls := (calls s)[c := (calls s ! c)\<lparr>call_phase := ph\<rparr>]\<rparr>"

text \<open>The \<open>catch\<close> block.\<close>

definition uploadFile_catch :: "nat \<Rightarrow> string \<Rightarrow> upload_state \<Rightarrow> upload_state" where
  "uploadFile_catch c msg s =
     (let call = calls s ! c
      in set_phase c Settled
           (s\<lparr>uploads := set_error (call_uploadId call) (uploads s),
              toasts := toasts s @
                [(ToastError, ''Failed to upload \"'' @ file_name (call_file call) @ ''\": '' @ msg)]\<rparr>))"

text \<open>The end of the \<open>try\<close> block: toast, removal timer, refresh hook.\<close>

definition uploadFile_finish :: "nat \<Rightarrow> upload_state \<Rightarrow> upload_state" where
  "uploadFile_finish c s =
     (let call = calls s ! c
      in set_phase c Settled
           (s\<lparr>toasts := toasts s @
                [(ToastSuccess, ''File \"'' @ file_name (call_file call) @ ''\" uploaded successfully!'')],
              timers := timers s @ [call_uploadId call],
              refreshes := Suc (refreshes s)\<rparr>))"

definition type_error_text :: string where
  "type_error_text = ''Cannot read properties of null (reading 'file')''"

text \<open>After \<open>await\<close> of the upload promise.\<close>

definition uploadFile_resume :: "nat \<Rightarrow> parsed_json promise_result \<Rightarrow> upload_state \<Rightarrow> upload_state" where
  "uploadFile_resume c r s =
     (let call = calls s ! c; props = call_props call
      in case r of
           Rejected msg \<Rightarrow> uploadFile_catch c msg s
         | Resolved uploadResult \<Rightarrow>
             (let s1 = s\<lparr>uploads := set_completed (call_uploadId call) (uploads s)\<rparr>;
                  isRoot = \<not> truthy (folderId props)
              in if isRoot then uploadFile_finish c s1
                 else (case uploadResult of
                         JsonValue fid _ \<Rightarrow>
                           if truthy fid
                           then set_phase c AwaitMove
                                  (s1\<lparr>requests := requests s1 @ [move_request props (the fid)]\<rparr>)
                           else uploadFile_finish c s1
                       | _ \<Rightarrow> uploadFile_catch c type_error_text s1)))"

text \<open>
  How the relocation \<open>fetch\<close> ends: a response that is \<open>ok\<close>, a response that is not
  (with its parsed body and status text), or a rejected promise.
\<close>

datatype move_result =
    MoveOk
  | MoveNotOk parsed_json string
  | MoveRejected string

definition move_error_text :: "parsed_json \<Rightarrow> string \<Rightarrow> string" where
  "move_error_text body statusText =
     (case body of
        JsonValue _ msg \<Rightarrow>
          ''Failed to move file to folder: '' @ (if truthy msg then the msg else statusText)
      | InvalidJson \<Rightarrow> ''Failed to move file to folder: '' @ statusText
      | JsonNull \<Rightarrow> ''Cannot read properties of null (reading 'error')'')"

definition uploadFile_moved :: "nat \<Rightarrow> move_result \<Rightarrow> upload_state \<Rightarrow> upload_state" where
  "uploadFile_moved c r s =
     (case r of
        MoveOk \<Rightarrow> uploadFile_finish c s
      | MoveNotOk body statusText \<Rightarrow> uploadFile_catch c (move_error_text body statusText) s
      | MoveRejected msg \<Rightarrow> uploadFile_catch c msg s)"

subsection \<open>\<open>startRealUpload\<close>, \<open>removeUpload\<close> and the event loop\<close>

definition new_item :: "string \<Rightarrow> local_file \<Rightarrow> UploadProgressItem" where
  "new_item uploadId file =
     \<lparr>item_id = uploadId, item_name = file_name file, progress = Num 0,
      item_size = file_size file, status = Uploading\<rparr>"

text \<open>
  The upload ids come from \<open>Date.now()\<close> and \<open>Math.random()\<close>; the model takes
  them with the files.
\<close>

fun startRealUpload ::
  "upload_props \<Rightarrow> (string \<times> local_file) list \<Rightarrow> upload_state \<Rightarrow> upload_state" where
  "startRealUpload props [] s = s"
| "startRealUpload props ((uploadId, file) # files) s =
     startRealUpload props files
       (uploadFile props uploadId file (s\<lparr>uploads := uploads s @ [new_item uploadId file]\<rparr>))"

definition removeUpload :: "string \<Rightarrow> upload_state \<Rightarrow> upload_state" where
  "removeUpload uploadId s = s\<lparr>uploads := remove_item uploadId (uploads s)\<rparr>"

datatype upload_event =
    StartRealUpload upload_props "(string \<times> local_file) list"
  | XhrProgress nat bool nat nat
  | XhrLoad nat nat string parsed_json
  | XhrError nat
  | XhrTimeout nat
  | MoveSettled nat move_result
  | RemovalTimer string
  | RemoveUpload string

definition in_phase :: "nat \<Rightarrow> phase \<Rightarrow> upload_state \<Rightarrow> bool" where
  "in_phase c ph s = (c < length (calls s) \<and> call_phase (calls s ! c) = ph)"

text \<open>
  One turn of the event loop. An event of the transport reaches the invocation that
  waits for it; upload progress events precede the end of the request.
\<close>

fun upload_step :: "upload_event \<Rightarrow> upload_state \<Rightarrow> upload_state" where
  "upload_step (StartRealUpload props files) s = startRealUpload props files s"
| "upload_step (XhrProgress c lengthComputable loaded tot) s =
     (if in_phase c AwaitXhr s \<and> lengthComputable
      then s\<lparr>uploads := set_progress (call_uploadId (calls s ! c)) (progress_of loaded tot) (uploads s)\<rparr>
      else s)"
| "upload_step (XhrLoad c st statusText body) s =
     (if in_phase c AwaitXhr s then uploadFile_resume c (xhr_onload st statusText body) s else s)"
| "upload_step (XhrError c) s =
     (if in_phase c AwaitXhr s then uploadFile_resume c xhr_onerror s else s)"
| "upload_step (XhrTimeout c) s =
     (if in_phase c AwaitXhr s then uploadFile_resume c xhr_ontimeout s else s)"
| "upload_step (MoveSettled c r) s =
     (if in_phase c AwaitMove s then uploadFile_moved c r s else s)"
| "upload_step (RemovalTimer uploadId) s =
     (if uploadId \<in> set (timers s)
      then s\<lparr>uploads := remove_item uploadId (uploads s), timers := remove1 uploadId (timers s)\<rparr>
      else s)"
| "upload_step (RemoveUpload uploadId) s = removeUpload uploadId s"

fun upload_run :: "upload_event list \<Rightarrow> upload_state \<Rightarrow> upload_state" where
  "upload_run [] s = s"
| "upload_run (e # es) s = upload_run es (upload_step e s)"

section \<open>Preview resolver (component \<open>PreviewModal\<close>)\<close>

record ShareLink =
  share_token :: string
  is_active :: bool

record FileItem =
  file_id :: string
  original_filename :: string
  mime_type :: string
  size_bytes :: nat
  share_link :: "ShareLink option"

record preview_props =
  fileProp :: "FileItem option"
  isOpen :: bool
  auth_token :: "string option"
  isPublic :: bool
  baseUrl :: string

datatype inv_phase = AwaitRace | AwaitBlob | Finished

text \<open>
  Every invocation of \<open>loadFilePreview\<close> that gets past its guards creates one
  \<open>AbortController\<close>; the invocation and its signal are named by the controller's
  index.
\<close>

record invocation =
  inv_phase :: inv_phase
  inv_aborted :: bool

text \<open>
  The five refs and the three state variables of the component, then the browser's
  side: the signals, the fetches and timers started, the number of object URLs created
  (they are named \<open>0, 1, \<dots>\<close> in the order of creation) and the URLs revoked, in
  order.
\<close>

record preview_state =
  currentBlobUrl :: "nat option"
  currentFileId :: "string option"
  abortController :: "nat option"
  loadingRef :: bool
  previewUrlRef :: "nat option"
  loading :: bool
  previewUrl :: "nat option"
  error :: "string option"
  signals :: "invocation list"
  fetches :: "(nat \<times> http_request) list"
  timeouts :: "(nat \<times> nat) list"
  created :: nat
  revoked :: "nat list"

definition init_preview_state :: preview_state where
  "init_preview_state =
     \<lparr>currentBlobUrl = None, currentFileId = None, abortController = None,
      loadingRef = False, previewUrlRef = None, loading = False, previewUrl = None,
      error = None, signals = [], fetches = [], timeouts = [], created = 0, revoked = []\<rparr>"

definition abort :: "nat \<Rightarrow> preview_state \<Rightarrow> preview_state" where
  "abort c s = s\<lparr>signals := (signals s)[c := (signals s ! c)\<lparr>inv_aborted := True\<rparr>]\<rparr>"

definition aborted :: "nat \<Rightarrow> preview_state \<Rightarrow> bool" where
  "aborted c s = inv_aborted (signals s ! c)"

definition revokeObjectURL :: "nat \<Rightarrow> preview_state \<Rightarrow> preview_state" where
  "revokeObjectURL u s = s\<lparr>revoked := revoked s @ [u]\<rparr>"

subsection \<open>The kinds \<open>loadFilePreview\<close> fetches\<close>

definition isImageFile :: "string \<Rightarrow> bool" where
  "isImageFile m = startsWith m ''image/''"

definition isTextFile :: "string \<Rightarrow> bool" where
  "isTextFile m =
     (startsWith m ''text/'' \<or> m = ''application/json'' \<or> m = ''application/javascript''
      \<or> m = ''text/csv'')"

definition isPDFFile :: "string \<Rightarrow> bool" where
  "isPDFFile m = (m = ''application/pdf'')"

definition isVideoFile :: "string \<Rightarrow> bool" where
  "isVideoFile m = (startsWith m ''video/'' \<or> m = ''video/mp4'')"

text \<open>The three \<open>throw\<close> statements that precede the fetch, in the order of the source.\<close>

definition precheck :: "preview_props \<Rightarrow> FileItem \<Rightarrow> string option" where
  "precheck props f =
     (if \<not> truthy (auth_token props) \<and> \<not> isPublic props
      then Some ''Authentication required for file preview''
      else if isTextFile (mime_type f) \<and> size_bytes f > 500000
      then Some ''Text file too large for preview (max 500KB)''
      else if isVideoFile (mime_type f) \<and> size_bytes f > 100000000
      then Some ''Video file too large for preview (max 100MB)''
      else if isPDFFile (mime_type f) \<and> size_bytes f > 50000000
      then Some ''PDF file too large for preview (max 50MB)''
      else None)"

definition hasPublicToken :: "FileItem \<Rightarrow> bool" where
  "hasPublicToken f =
     (case share_link f of None \<Rightarrow> False | Some l \<Rightarrow> share_token l \<noteq> [] \<and> is_active l)"

definition download_request :: "preview_props \<Rightarrow> FileItem \<Rightarrow> http_request" where
  "download_request props f =
     \<lparr>req_method = ''GET'',
      req_url = (if hasPublicToken f
                 then baseUrl props @ ''/p/'' @ share_token (the (share_link f))
                 else baseUrl props @ ''/files/'' @ file_id f @ ''/download''),
      req_headers = (if isPublic props \<or> hasPublicToken f then []
                     else [(''Authorization'', ''Bearer '' @ the (auth_token props))]),
      req_timeout = 0,
      req_body = NoBody\<rparr>"

subsection \<open>\<open>loadFilePreview\<close>\<close>

definition set_inv_phase :: "nat \<Rightarrow> inv_phase \<Rightarrow> preview_state \<Rightarrow> preview_state" where
  "set_inv_phase c ph s = s\<lparr>signals := (signals s)[c := (signals s ! c)\<lparr>inv_phase := ph\<rparr>]\<rparr>"

definition catch_block :: "nat \<Rightarrow> string \<Rightarrow> preview_state \<Rightarrow> preview_state" where
  "catch_block c msg s =
     (if aborted c s then s
      else s\<lparr>error := Some msg, previewUrl := None, previewUrlRef := None\<rparr>)"

definition finally_block :: "nat \<Rightarrow> preview_state \<Rightarrow> preview_state" where
  "finally_block c s =
     set_inv_phase c Finished
       (if \<not> aborted c s then s\<lparr>loading := False, loadingRef := False\<rparr> else s)"

text \<open>The branch taken when there is no file or the modal is closed.\<close>

definition reset :: "preview_state \<Rightarrow> preview_state" where
  "reset s =
     (let s1 = (case currentBlobUrl s of
                  Some u \<Rightarrow> (revokeObjectURL u s)\<lparr>currentBlobUrl := None\<rparr>
                | None \<Rightarrow> s);
          s2 = (case abortController s1 of
                  Some c \<Rightarrow> (abort c s1)\<lparr>abortController := None\<rparr>
                | None \<Rightarrow> s1)
      in s2\<lparr>previewUrl := None, previewUrlRef := None, error := None, loading := False,
            loadingRef := False, currentFileId := None\<rparr>)"

text \<open>The kinds for which bytes are fetched.\<close>

definition fetched_kind :: "string \<Rightarrow> bool" where
  "fetched_kind m = (isImageFile m \<or> isTextFile m \<or> isPDFFile m \<or> isVideoFile m)"

text \<open>
  The guard on the current file id: the file is the current one and it is loading or
  already has a preview URL.
\<close>

definition same_file_guard :: "FileItem \<Rightarrow> preview_state \<Rightarrow> bool" where
  "same_file_guard f s =
     (currentFileId s = Some (file_id f) \<and> (loadingRef s \<or> previewUrlRef s \<noteq> None))"

text \<open>
  The start of an attempt: the previous controller is aborted, a new one is created, and
  the loading flags, the error and the current file id are set.
\<close>

definition begin_attempt :: "FileItem \<Rightarrow> preview_state \<Rightarrow> preview_state" where
  "begin_attempt f s =
     (let s1 = (case abortController s of Some c \<Rightarrow> abort c s | None \<Rightarrow> s)
      in s1\<lparr>signals := signals s1 @ [\<lparr>inv_phase = AwaitRace, inv_aborted = False\<rparr>],
            abortController := Some (length (signals s1)),
            loading := True, loadingRef := True, error := None,
            currentFileId := Some (file_id f)\<rparr>)"

text \<open>
  The synchronous part of \<open>loadFilePreview\<close>, up to \<open>await Promise.race\<close> or
  to the end of the function.
\<close>

definition loadFilePreview :: "preview_props \<Rightarrow> preview_state \<Rightarrow> preview_state" where
  "loadFilePreview props s =
     (case fileProp props of
        None \<Rightarrow> reset s
      | Some f \<Rightarrow>
          if \<not> isOpen props then reset s
          else if same_file_guard f s then s
          else
            let c = length (signals s);
                s2 = begin_attempt f s;
                m = mime_type f
            in if fetched_kind m
               then (case precheck props f of
                       Some msg \<Rightarrow> finally_block c (catch_block c msg s2)
                     | None \<Rightarrow>
                         s2\<lparr>timeouts := timeouts s2 @ [(c, if isVideoFile m then 60000 else 30000)],
                            fetches := fetches s2 @ [(c, download_request props f)]\<rparr>)
               else finally_block c (s2\<lparr>previewUrl := None, previewUrlRef := None\<rparr>))"

text \<open>The cleanup function that the effect returns.\<close>

definition cleanup :: "preview_state \<Rightarrow> preview_state" where
  "cleanup s =
     (let s1 = (case abortController s of
                  Some c \<Rightarrow> (abort c s)\<lparr>abortController := None\<rparr>
                | None \<Rightarrow> s)
      in case currentBlobUrl s1 of
           Some u \<Rightarrow> (revokeObjectURL u s1)\<lparr>currentBlobUrl := None\<rparr>
         | None \<Rightarrow> s1)"


text \<open>The code after \<open>await response.blob()\<close>.\<close>

definition commit_blob :: "nat \<Rightarrow> preview_state \<Rightarrow> preview_state" where
  "commit_blob c s =
     (if aborted c s then finally_block c s
      else
        let s1 = (case currentBlobUrl s of Some u \<Rightarrow> revokeObjectURL u s | None \<Rightarrow> s);
            url = created s1
        in finally_block c
             (s1\<lparr>created := Suc url, currentBlobUrl := Some url,
                 previewUrlRef := Some url, previewUrl := Some url\<rparr>))"

datatype preview_event =
    Effect preview_props
  | Cleanup
  | FetchResolved nat bool nat string
  | FetchRejected nat string
  | TimeoutFired nat
  | BlobResolved nat
  | BlobRejected nat string

definition inv_in_phase :: "nat \<Rightarrow> inv_phase \<Rightarrow> preview_state \<Rightarrow> bool" where
  "inv_in_phase c ph s = (c < length (signals s) \<and> inv_phase (signals s ! c) = ph)"

fun preview_step :: "preview_event \<Rightarrow> preview_state \<Rightarrow> preview_state" where
  "preview_step (Effect props) s = loadFilePreview props s"
| "preview_step Cleanup s = cleanup s"
| "preview_step (FetchResolved c ok st statusText) s =
     (if inv_in_phase c AwaitRace s
      then (if aborted c s then finally_block c s
            else if \<not> ok
            then finally_block c
                   (catch_block c (''Failed to load preview: '' @ digits_of st @ '' '' @ statusText) s)
            else set_inv_phase c AwaitBlob s)
      else s)"
| "preview_step (FetchRejected c msg) s =
     (if inv_in_phase c AwaitRace s then finally_block c (catch_block c msg s) else s)"
| "preview_step (TimeoutFired c) s =
     (if inv_in_phase c AwaitRace s \<and> \<not> aborted c s
      then finally_block c
             (catch_block c ''Request timeout - large files may take longer to load'' s)
      else s)"
| "preview_step (BlobResolved c) s =
     (if inv_in_phase c AwaitBlob s then commit_blob c s else s)"
| "preview_step (BlobRejected c msg) s =
     (if inv_in_phase c AwaitBlob s then finally_block c (catch_block c msg s) else s)"

fun preview_run :: "preview_event list \<Rightarrow> preview_state \<Rightarrow> preview_state" where
  "preview_run [] s = s"
| "preview_run (e # es) s = preview_run es (preview_step e s)"

subsection \<open>What the modal renders\<close>

definition isImage :: "string \<Rightarrow> bool" where
  "isImage m = startsWith m ''image/''"

definition isText :: "string \<Rightarrow> bool" where
  "isText m =
     (startsWith m ''text/'' \<or>
      m \<in> set [''application/json'', ''application/javascript'', ''application/xml'',
               ''application/x-yaml'', ''text/csv'', ''text/yaml'', ''text/yml''])"

definition isPDF :: "string \<Rightarrow> bool" where
  "isPDF m = (m = ''application/pdf'')"

definition isVideo :: "string \<Rightarrow> bool" where
  "isVideo m =
     (startsWith m ''video/'' \<or>
      m \<in> set [''video/mp4'', ''video/webm'', ''video/ogg'', ''video/avi'', ''video/mov''])"

datatype view =
    NoModal
  | LoadingSpinner
  | FailedWithError string
  | ImageElement nat
  | TextPreview nat
  | PDFPreview nat
  | VideoElement nat
  | PreviewFailedToLoad
  | PreviewNotAvailable

definition renderPreview :: "FileItem \<Rightarrow> preview_state \<Rightarrow> view" where
  "renderPreview f s =
     (let m = mime_type f
      in if loading s then LoadingSpinner
         else if truthy (error s) then FailedWithError (the (error s))
         else if isImage m \<and> previewUrl s \<noteq> None then ImageElement (the (previewUrl s))
         else if isText m \<and> previewUrl s \<noteq> None then TextPreview (the (previewUrl s))
         else if isPDF m \<and> previewUrl s \<noteq> None then PDFPreview (the (previewUrl s))
         else if isVideo m \<and> previewUrl s \<noteq> None then VideoElement (the (previewUrl s))
         else if (isPDF m \<or> isText m \<or> isVideo m) \<and> previewUrl s = None then PreviewFailedToLoad
         else PreviewNotAvailable)"

definition PreviewModal :: "preview_props \<Rightarrow> preview_state \<Rightarrow> view" where
  "PreviewModal props s =
     (case fileProp props of
        None \<Rightarrow> NoModal
      | Some f \<Rightarrow> if \<not> isOpen props then NoModal else renderPreview f s)"

section \<open>Auxiliary notions for the statements\<close>

text \<open>The transport events, and the invocation of \<open>uploadFile\<close> each belongs to.\<close>

fun event_call :: "upload_event \<Rightarrow> nat option" where
  "event_call (XhrProgress c _ _ _) = Some c"
| "event_call (XhrLoad c _ _ _) = Some c"
| "event_call (XhrError c) = Some c"
| "event_call (XhrTimeout c) = Some c"
| "event_call (MoveSettled c _) = Some c"
| "event_call _ = None"

text \<open>The three events that end the XMLHttpRequest of invocation \<open>c\<close>.\<close>

fun settles_xhr :: "upload_event \<Rightarrow> nat \<Rightarrow> bool" where
  "settles_xhr (XhrLoad c' _ _ _) c = (c' = c)"
| "settles_xhr (XhrError c') c = (c' = c)"
| "settles_xhr (XhrTimeout c') c = (c' = c)"
| "settles_xhr _ c = False"

definition mark_error :: "string set \<Rightarrow> UploadProgressItem \<Rightarrow> UploadProgressItem" where
  "mark_error ks u = (if item_id u \<in> ks then u\<lparr>status := Error\<rparr> else u)"

subsection \<open>A batch of two files, used to run the model\<close>

definition example_props :: upload_props where
  "example_props =
     \<lparr>token = Some ''secret'', folderId = Some ''folder-7'', tags = [0x00A0, 0x72, 0x65, 0x70, 0x6F, 0x72, 0x74, 0x20],
      restBaseUrl = ''http://localhost:8080/api/v1''\<rparr>"

definition example_props_anon :: upload_props where
  "example_props_anon = example_props\<lparr>token := None\<rparr>"

definition example_file :: local_file where
  "example_file = \<lparr>file_name = ''a.txt'', file_size = 40\<rparr>"

definition example_batch :: "(string \<times> local_file) list" where
  "example_batch =
     [(''upload-1'', example_file), (''upload-2'', \<lparr>file_name = ''b.png'', file_size = 2048\<rparr>)]"

definition example_later_batch :: "(string \<times> local_file) list" where
  "example_later_batch = [(''upload-3'', \<lparr>file_name = ''c.pdf'', file_size = 7\<rparr>)]"

definition example_started :: upload_state where
  "example_started = startRealUpload example_props example_batch init_upload_state"

definition example_loaded :: upload_state where
  "example_loaded =
     upload_step (XhrLoad 0 201 ''Created'' (JsonValue (Some ''file-9'') None)) example_started"

definition example_move_failed :: upload_state where
  "example_move_failed =
     upload_step (MoveSettled 0 (MoveNotOk (JsonValue None (Some ''folder not found'')) ''Not Found''))
       example_loaded"

definition example_timed_out :: upload_state where
  "example_timed_out = upload_step (XhrTimeout 0) example_started"

subsection \<open>Notions for the object URLs of the preview\<close>

text \<open>The object URLs that were created and not revoked.\<close>

definition live_urls :: "preview_state \<Rightarrow> nat list" where
  "live_urls s = filter (\<lambda>u. u \<notin> set (revoked s)) [0..<created s]"

text \<open>
  No URL is revoked twice, only created URLs are revoked, and a created URL is either
  revoked or the one held in \<open>currentBlobUrl\<close>.
\<close>

definition url_inv :: "preview_state \<Rightarrow> bool" where
  "url_inv s =
     (distinct (revoked s) \<and>
      (\<forall>u \<in> set (revoked s). u < created s) \<and>
      (\<forall>u. currentBlobUrl s = Some u \<longrightarrow> u < created s \<and> u \<notin> set (revoked s)) \<and>
      (\<forall>u < created s. u \<in> set (revoked s) \<or> currentBlobUrl s = Some u))"

subsection \<open>Files used to run the preview model\<close>

definition example_base :: string where
  "example_base = ''http://localhost:8080/api/v1''"

definition example_xml :: FileItem where
  "example_xml =
     \<lparr>file_id = ''f-xml'', original_filename = ''feed.xml'', mime_type = ''application/xml'',
      size_bytes = 1200, share_link = None\<rparr>"

definition example_big_text :: FileItem where
  "example_big_text =
     \<lparr>file_id = ''f-txt'', original_filename = ''log.txt'', mime_type = ''text/plain'',
      size_bytes = 600000, share_link = None\<rparr>"

definition example_shared_pdf :: FileItem where
  "example_shared_pdf =
     \<lparr>file_id = ''f-pdf'', original_filename = ''paper.pdf'', mime_type = ''application/pdf'',
      size_bytes = 10000000,
      share_link = Some \<lparr>share_token = ''tok123'', is_active = True\<rparr>\<rparr>"

definition example_image :: FileItem where
  "example_image =
     \<lparr>file_id = ''f-img'', original_filename = ''cat.png'', mime_type = ''image/png'',
      size_bytes = 30000, share_link = None\<rparr>"

text \<open>The modal open on a file, for a signed-in user, for nobody, and on a public page.\<close>

definition open_on :: "FileItem \<Rightarrow> preview_props" where
  "open_on f =
     \<lparr>fileProp = Some f, isOpen = True, auth_token = Some ''secret'', isPublic = False,
      baseUrl = example_base\<rparr>"

definition open_anon :: "FileItem \<Rightarrow> preview_props" where
  "open_anon f = (open_on f)\<lparr>auth_token := None\<rparr>"

definition open_public :: "FileItem \<Rightarrow> preview_props" where
  "open_public f = (open_on f)\<lparr>isPublic := True\<rparr>"

text \<open>The image is opened and loaded; then the shared PDF is opened and loaded.\<close>

definition image_loaded :: "preview_event list" where
  "image_loaded = [Effect (open_on example_image), FetchResolved 0 True 200 ''OK'', BlobResolved 0]"

definition pdf_after_image :: "preview_event list" where
  "pdf_after_image =
     [Cleanup, Effect (open_on example_shared_pdf), FetchResolved 1 True 200 ''OK'', BlobResolved 1]"







subsection \<open>Notions for the progress of one task\<close>

text \<open>The states an event sequence visits, the first one included.\<close>

fun upload_trace :: "upload_event list \<Rightarrow> upload_state \<Rightarrow> upload_state list" where
  "upload_trace [] s = [s]"
| "upload_trace (e # es) s = s # upload_trace es (upload_step e s)"

definition task_items :: "string \<Rightarrow> upload_state \<Rightarrow> UploadProgressItem list" where
  "task_items k s = filter (\<lambda>u. item_id u = k) (uploads s)"

definition progress_le :: "js_number \<Rightarrow> js_number \<Rightarrow> bool" where
  "progress_le a b = (case (a, b) of (Num x, Num y) \<Rightarrow> 0 \<le> x \<and> x \<le> y \<and> y \<le> 100 | _ \<Rightarrow> False)"

definition task_progress_le :: "string \<Rightarrow> upload_state \<Rightarrow> upload_state \<Rightarrow> bool" where
  "task_progress_le k s s' =
     (\<forall>u \<in> set (task_items k s). \<forall>u' \<in> set (task_items k s').
        progress_le (progress u) (progress u'))"

definition completed_at_100 :: "string \<Rightarrow> upload_state \<Rightarrow> bool" where
  "completed_at_100 k s =
     (\<forall>u \<in> set (task_items k s). status u = Completed \<longrightarrow> progress u = Num 100)"

text \<open>
  The \<open>(loaded, total)\<close> pairs of the length-computable progress events of invocation
  \<open>c\<close>, in order.
\<close>

fun reports_of :: "nat \<Rightarrow> upload_event list \<Rightarrow> (nat \<times> nat) list" where
  "reports_of c [] = []"
| "reports_of c (XhrProgress c' lengthComputable loaded tot # es) =
     (if c' = c \<and> lengthComputable then (loaded, tot) # reports_of c es else reports_of c es)"
| "reports_of c (_ # es) = reports_of c es"

text \<open>The upload ids generated for the batches enqueued by an event sequence.\<close>

fun new_ids :: "upload_event list \<Rightarrow> string list" where
  "new_ids [] = []"
| "new_ids (StartRealUpload props files # es) = map fst files @ new_ids es"
| "new_ids (_ # es) = new_ids es"

text \<open>No other invocation has the upload id of invocation \<open>c\<close>.\<close>

definition only_call :: "nat \<Rightarrow> upload_state \<Rightarrow> bool" where
  "only_call c s =
     (\<forall>c' < length (calls s). c' \<noteq> c \<longrightarrow>
        call_uploadId (calls s ! c') \<noteq> call_uploadId (calls s ! c))"

definition uniform :: "int \<Rightarrow> UploadProgressItem list \<Rightarrow> bool" where
  "uniform v xs = (\<forall>u \<in> set xs. progress u = Num v \<and> (status u = Completed \<longrightarrow> v = 100))"

definition none_completed :: "UploadProgressItem list \<Rightarrow> bool" where
  "none_completed xs = (\<forall>u \<in> set xs. status u \<noteq> Completed)"

text \<open>
  The invariant of the tasks with id \<open>k\<close> of invocation \<open>c\<close>: they show the same
  progress \<open>v\<close>, and while the request is in flight none of them is completed and
  \<open>v\<close> is at most the percentage of every report still to come.
\<close>

definition progress_inv ::
  "nat \<Rightarrow> string \<Rightarrow> nat \<Rightarrow> (nat \<times> nat) list \<Rightarrow> int \<Rightarrow> upload_state \<Rightarrow> bool" where
  "progress_inv c k tot rs v s =
     (c < length (calls s) \<and> only_call c s \<and> call_uploadId (calls s ! c) = k \<and>
      uniform v (task_items k s) \<and> 0 \<le> v \<and> v \<le> 100 \<and>
      (in_phase c AwaitXhr s \<longrightarrow>
         none_completed (task_items k s) \<and> (\<forall>(l, t) \<in> set rs. v \<le> percent l tot)))"

text \<open>Progress events of the two example requests.\<close>

definition example_reports :: "upload_event list" where
  "example_reports =
     [XhrProgress 0 True 10 40, XhrProgress 1 True 5 10, XhrProgress 0 True 23 40,
      XhrProgress 0 False 0 0, XhrProgress 0 True 40 40]"

section \<open>Upload coordinator: lemmas\<close>


subsection \<open>Frame lemmas for the updaters\<close>

lemma length_set_error [simp]: "length (set_error k us) = length us"
  by (simp add: set_error_def)

lemma length_set_progress [simp]: "length (set_progress k p us) = length us"
  by (simp add: set_progress_def)

lemma length_set_completed [simp]: "length (set_completed k us) = length us"
  by (simp add: set_completed_def)

lemma nth_set_error_other:
  "i < length us \<Longrightarrow> item_id (us ! i) \<noteq> k \<Longrightarrow> set_error k us ! i = us ! i"
  by (simp add: set_error_def)

lemma nth_set_progress_other:
  "i < length us \<Longrightarrow> item_id (us ! i) \<noteq> k \<Longrightarrow> set_progress k p us ! i = us ! i"
  by (simp add: set_progress_def)

lemma nth_set_completed_other:
  "i < length us \<Longrightarrow> item_id (us ! i) \<noteq> k \<Longrightarrow> set_completed k us ! i = us ! i"
  by (simp add: set_completed_def)

lemma set_error_append: "set_error k (us @ vs) = set_error k us @ set_error k vs"
  by (simp add: set_error_def)

lemma set_error_new_item: "set_error k [new_item k f] = [(new_item k f)\<lparr>status := Error\<rparr>]"
  by (simp add: set_error_def new_item_def)

subsection \<open>uploads after each handler\<close>

lemma uploads_set_phase [simp]: "uploads (set_phase c ph s) = uploads s"
  and requests_set_phase [simp]: "requests (set_phase c ph s) = requests s"
  and toasts_set_phase [simp]: "toasts (set_phase c ph s) = toasts s"
  and refreshes_set_phase [simp]: "refreshes (set_phase c ph s) = refreshes s"
  and timers_set_phase [simp]: "timers (set_phase c ph s) = timers s"
  and length_calls_set_phase [simp]: "length (calls (set_phase c ph s)) = length (calls s)"
  by (simp_all add: set_phase_def)

lemma in_phase_set_phase [simp]:
  "c < length (calls s) \<Longrightarrow> in_phase c ph' (set_phase c ph s) = (ph' = ph)"
  by (auto simp: in_phase_def set_phase_def)

lemma call_id_set_phase [simp]:
  "call_uploadId (calls (set_phase c ph s) ! c') = call_uploadId (calls s ! c')"
proof (cases "c < length (calls s)")
  case True
  then show ?thesis by (simp add: set_phase_def nth_list_update)
next
  case False
  then show ?thesis by (simp add: set_phase_def list_update_beyond)
qed

lemma catch_fields:
  "uploads (uploadFile_catch c msg s) = set_error (call_uploadId (calls s ! c)) (uploads s)"
  "requests (uploadFile_catch c msg s) = requests s"
  "refreshes (uploadFile_catch c msg s) = refreshes s"
  "timers (uploadFile_catch c msg s) = timers s"
  "toasts (uploadFile_catch c msg s) = toasts s @
      [(ToastError, ''Failed to upload \"'' @ file_name (call_file (calls s ! c)) @ ''\": '' @ msg)]"
  "length (calls (uploadFile_catch c msg s)) = length (calls s)"
  by (simp_all add: uploadFile_catch_def Let_def)

lemma catch_phase:
  "c < length (calls s) \<Longrightarrow> in_phase c ph (uploadFile_catch c msg s) = (ph = Settled)"
  by (auto simp add: uploadFile_catch_def Let_def in_phase_def set_phase_def)

lemma finish_fields:
  "uploads (uploadFile_finish c s) = uploads s"
  "requests (uploadFile_finish c s) = requests s"
  "refreshes (uploadFile_finish c s) = Suc (refreshes s)"
  "timers (uploadFile_finish c s) = timers s @ [call_uploadId (calls s ! c)]"
  "length (calls (uploadFile_finish c s)) = length (calls s)"
  by (simp_all add: uploadFile_finish_def Let_def)

lemma finish_phase:
  "c < length (calls s) \<Longrightarrow> in_phase c ph (uploadFile_finish c s) = (ph = Settled)"
  by (auto simp add: uploadFile_finish_def Let_def in_phase_def set_phase_def)

lemma uploadFile_no_token:
  "\<not> truthy (token props) \<Longrightarrow>
   uploadFile props k f s =
     s\<lparr>uploads := set_error k (uploads s),
       toasts := toasts s @ [(ToastError, ''Authentication required for file upload'')]\<rparr>"
  by (simp add: uploadFile_def)

lemma uploadFile_token:
  "truthy (token props) \<Longrightarrow>
   uploadFile props k f s =
     s\<lparr>requests := requests s @ [upload_request props f],
       calls := calls s @ [\<lparr>call_uploadId = k, call_file = f, call_props = props, call_phase = AwaitXhr\<rparr>]\<rparr>"
  by (simp add: uploadFile_def)

lemma startRealUpload_no_token:
  "\<not> truthy (token props) \<Longrightarrow>
   startRealUpload props files s =
     s\<lparr>uploads := map (mark_error (fst ` set files)) (uploads s) @
                   map (\<lambda>(k, f). (new_item k f)\<lparr>status := Error\<rparr>) files,
       toasts := toasts s @
                   replicate (length files) (ToastError, ''Authentication required for file upload'')\<rparr>"
proof (induction files arbitrary: s)
  case Nil
  have "map (mark_error {}) (uploads s) = uploads s"
    by (rule map_idI) (simp add: mark_error_def)
  then show ?case by simp
next
  case (Cons kf files)
  obtain k f where kf: "kf = (k, f)" by (cases kf)
  have m: "map (mark_error (fst ` set files)) (set_error k (uploads s))
           = map (mark_error (insert k (fst ` set files))) (uploads s)"
    by (auto simp: set_error_def mark_error_def)
  have n: "mark_error (fst ` set files) ((new_item k f)\<lparr>status := Error\<rparr>)
           = (new_item k f)\<lparr>status := Error\<rparr>"
    by (simp add: mark_error_def)
  show ?case
    using Cons.prems
    by (simp add: kf Cons.IH uploadFile_no_token set_error_append set_error_new_item m n
        replicate_append_same)
qed

lemma startRealUpload_token:
  "truthy (token props) \<Longrightarrow>
   startRealUpload props files s =
     s\<lparr>uploads := uploads s @ map (\<lambda>(k, f). new_item k f) files,
       requests := requests s @ map (\<lambda>(k, f). upload_request props f) files,
       calls := calls s @ map (\<lambda>(k, f). \<lparr>call_uploadId = k, call_file = f,
                                call_props = props, call_phase = AwaitXhr\<rparr>) files\<rparr>"
proof (induction files arbitrary: s)
  case Nil
  then show ?case by simp
next
  case (Cons kf files)
  obtain k f where kf: "kf = (k, f)" by (cases kf)
  show ?case
    using Cons.prems by (simp add: kf Cons.IH uploadFile_token)
qed


lemma resume_rejected:
  "uploadFile_resume c (Rejected msg) s = uploadFile_catch c msg s"
  by (simp add: uploadFile_resume_def Let_def)

lemma uploads_resume_frame:
  "length (uploads (uploadFile_resume c r s)) = length (uploads s) \<and>
   (\<forall>i < length (uploads s). item_id (uploads s ! i) \<noteq> call_uploadId (calls s ! c) \<longrightarrow>
      uploads (uploadFile_resume c r s) ! i = uploads s ! i)"
  by (auto simp: uploadFile_resume_def Let_def catch_fields finish_fields
      nth_set_error_other nth_set_completed_other set_error_def set_completed_def
      split: promise_result.splits parsed_json.splits)

lemma uploads_moved_frame:
  "length (uploads (uploadFile_moved c r s)) = length (uploads s) \<and>
   (\<forall>i < length (uploads s). item_id (uploads s ! i) \<noteq> call_uploadId (calls s ! c) \<longrightarrow>
      uploads (uploadFile_moved c r s) ! i = uploads s ! i)"
  by (auto simp: uploadFile_moved_def catch_fields finish_fields nth_set_error_other
      split: move_result.splits)

lemma status_after_resume:
  assumes "u \<in> set (uploads (uploadFile_resume c r s))"
    and "item_id u = call_uploadId (calls s ! c)"
  shows "status u = Completed \<or> status u = Error"
  using assms
  by (auto simp: uploadFile_resume_def Let_def catch_fields finish_fields
      set_error_def set_completed_def
      split: promise_result.splits parsed_json.splits if_splits)

lemma step_frame:
  assumes "event_call e = Some c"
  shows "length (uploads (upload_step e s)) = length (uploads s) \<and>
   (\<forall>i < length (uploads s). item_id (uploads s ! i) \<noteq> call_uploadId (calls s ! c) \<longrightarrow>
      uploads (upload_step e s) ! i = uploads s ! i)"
  using assms uploads_resume_frame [of c _ s] uploads_moved_frame [of c _ s]
  by (cases e) (auto simp: nth_set_progress_other)

lemma step_settles:
  assumes "settles_xhr e c" and "in_phase c AwaitXhr s"
    and "u \<in> set (uploads (upload_step e s))" and "item_id u = call_uploadId (calls s ! c)"
  shows "status u = Completed \<or> status u = Error"
  using assms status_after_resume [of u c _ s]
  by (cases e) auto

lemma startRealUpload_uploads:
  "\<exists>old. uploads (startRealUpload props files s) = old @ map (\<lambda>(k, f). (new_item k f)\<lparr>status := (if truthy (token props) then Uploading else Error)\<rparr>) files
     \<and> length old = length (uploads s)
     \<and> (\<forall>i < length old. item_id (uploads s ! i) \<notin> fst ` set files \<longrightarrow> old ! i = uploads s ! i)"
proof (cases "truthy (token props)")
  case True
  have "(\<lambda>(k, f). (new_item k f)\<lparr>status := Uploading\<rparr>) = (\<lambda>(k, f). new_item k f)"
    by (auto simp: new_item_def fun_eq_iff)
  with True show ?thesis by (simp add: startRealUpload_token)
next
  case False
  then show ?thesis by (simp add: startRealUpload_no_token mark_error_def)
qed




lemma error_after_completed:
  "i < length us \<Longrightarrow> item_id (us ! i) = k \<Longrightarrow>
   set_error k (set_completed k us) ! i = (us ! i)\<lparr>progress := Num 100, status := Error\<rparr>"
  by (simp add: set_error_def set_completed_def)

lemma step_load_to_move:
  assumes "in_phase c AwaitXhr s"
    and "truthy (folderId (call_props (calls s ! c)))"
    and "200 \<le> st" and "st < 300" and "truthy fid"
  shows "upload_step (XhrLoad c st statusText (JsonValue fid msg)) s =
     set_phase c AwaitMove
      (s\<lparr>uploads := set_completed (call_uploadId (calls s ! c)) (uploads s),
         requests := requests s @ [move_request (call_props (calls s ! c)) (the fid)]\<rparr>)"
  using assms by (simp add: uploadFile_resume_def xhr_onload_def Let_def)

lemma step_move_failed:
  assumes "in_phase c AwaitMove s" and "r \<noteq> MoveOk"
  shows "\<exists>m. upload_step (MoveSettled c r) s = uploadFile_catch c m s"
proof (cases r)
  case MoveOk
  with assms show ?thesis by simp
next
  case (MoveNotOk body statusText)
  have "upload_step (MoveSettled c r) s = uploadFile_catch c (move_error_text body statusText) s"
    using assms(1) by (simp add: MoveNotOk uploadFile_moved_def)
  then show ?thesis ..
next
  case (MoveRejected msg)
  have "upload_step (MoveSettled c r) s = uploadFile_catch c msg s"
    using assms(1) by (simp add: MoveRejected uploadFile_moved_def)
  then show ?thesis ..
qed

lemma step_timeout:
  "in_phase c AwaitXhr s \<Longrightarrow>
   upload_step (XhrTimeout c) s = uploadFile_catch c ''Upload timeout'' s"
  by (simp add: xhr_ontimeout_def uploadFile_resume_def Let_def)

lemma example_token: "truthy (token example_props)"
  by (simp add: example_props_def truthy_def)

lemma example_started_eq:
  "example_started =
     \<lparr>uploads = [new_item ''upload-1'' example_file,
                 new_item ''upload-2'' \<lparr>file_name = ''b.png'', file_size = 2048\<rparr>],
      calls = [\<lparr>call_uploadId = ''upload-1'', call_file = example_file,
                call_props = example_props, call_phase = AwaitXhr\<rparr>,
               \<lparr>call_uploadId = ''upload-2'', call_file = \<lparr>file_name = ''b.png'', file_size = 2048\<rparr>,
                call_props = example_props, call_phase = AwaitXhr\<rparr>],
      requests = [upload_request example_props example_file,
                  upload_request example_props \<lparr>file_name = ''b.png'', file_size = 2048\<rparr>],
      toasts = [], refreshes = 0, timers = []\<rparr>"
  by (simp only: example_started_def startRealUpload_token [OF example_token])
     (simp add: example_batch_def init_upload_state_def)

lemma example_started_facts:
  "in_phase 0 AwaitXhr example_started"
  "call_uploadId (calls example_started ! 0) = ''upload-1''"
  "truthy (folderId (call_props (calls example_started ! 0)))"
  "map status (uploads example_started) = [Uploading, Uploading]"
  "map progress (uploads example_started) = [Num 0, Num 0]"
  "map item_id (uploads example_started) = [''upload-1'', ''upload-2'']"
  "map req_timeout (requests example_started) = [60000, 60000]"
  "toasts example_started = []"
  by (simp_all add: example_started_eq in_phase_def example_props_def truthy_def new_item_def
      upload_request_def)

lemma example_loaded_eq:
  "example_loaded = set_phase 0 AwaitMove
      (example_started\<lparr>uploads := set_completed ''upload-1'' (uploads example_started),
         requests := requests example_started @ [move_request example_props ''file-9'']\<rparr>)"
proof -
  have t: "truthy (Some ''file-9'')" by (simp add: truthy_def)
  have n: "(200::nat) \<le> 201" "(201::nat) < 300" by simp_all
  have p: "call_props (calls example_started ! 0) = example_props"
    by (simp add: example_started_eq)
  show ?thesis
    unfolding example_loaded_def
    by (simp only: step_load_to_move [OF example_started_facts(1) example_started_facts(3) n t]
        example_started_facts(2) p option.sel)
qed

lemma example_loaded_facts:
  "in_phase 0 AwaitMove example_loaded"
  "call_uploadId (calls example_loaded ! 0) = ''upload-1''"
  "map status (uploads example_loaded) = [Completed, Uploading]"
  "map progress (uploads example_loaded) = [Num 100, Num 0]"
  "toasts example_loaded = []"
  "refreshes example_loaded = 0"
  by (simp_all add: example_loaded_eq example_started_facts)
     (simp_all add: example_started_eq in_phase_def set_phase_def set_completed_def new_item_def)

lemma example_move_failed_eq:
  "example_move_failed =
     uploadFile_catch 0 ''Failed to move file to folder: folder not found'' example_loaded"
  unfolding example_move_failed_def
  using example_loaded_facts(1)
  by (simp add: uploadFile_moved_def move_error_text_def truthy_def)

lemma example_move_failed_facts:
  "map status (uploads example_move_failed) = [Error, Uploading]"
  "map progress (uploads example_move_failed) = [Num 100, Num 0]"
  "requests example_move_failed = requests example_loaded"
  "refreshes example_move_failed = 0"
  "timers example_move_failed = []"
  "in_phase 0 Settled example_move_failed"
proof -
  have u: "uploads example_move_failed = set_error ''upload-1'' (uploads example_loaded)"
    by (simp add: example_move_failed_eq catch_fields example_loaded_facts)
  have l: "uploads example_loaded = set_completed ''upload-1'' (uploads example_started)"
    by (simp add: example_loaded_eq)
  show "map status (uploads example_move_failed) = [Error, Uploading]"
    "map progress (uploads example_move_failed) = [Num 100, Num 0]"
    unfolding u l
    by (simp_all add: example_started_eq set_error_def set_completed_def new_item_def)
  show "requests example_move_failed = requests example_loaded"
    "refreshes example_move_failed = 0"
    by (simp_all add: example_move_failed_eq catch_fields example_loaded_facts)
  show "timers example_move_failed = []"
    by (simp add: example_move_failed_eq catch_fields example_loaded_eq example_started_eq)
  have "0 < length (calls example_loaded)"
    using example_loaded_facts(1) by (simp add: in_phase_def)
  then show "in_phase 0 Settled example_move_failed"
    by (simp add: example_move_failed_eq catch_phase)
qed

lemma example_timed_out_facts:
  "map status (uploads example_timed_out) = [Error, Uploading]"
  "toasts example_timed_out = [(ToastError, ''Failed to upload \"a.txt\": Upload timeout'')]"
proof -
  have e: "example_timed_out = uploadFile_catch 0 ''Upload timeout'' example_started"
    unfolding example_timed_out_def by (rule step_timeout [OF example_started_facts(1)])
  have u: "uploads example_timed_out = set_error ''upload-1'' (uploads example_started)"
    by (simp add: e catch_fields example_started_facts)
  show "map status (uploads example_timed_out) = [Error, Uploading]"
    unfolding u by (simp add: example_started_eq set_error_def new_item_def)
  show "toasts example_timed_out = [(ToastError, ''Failed to upload \"a.txt\": Upload timeout'')]"
    by (simp add: e catch_fields) (simp add: example_started_eq example_file_def)
qed

text \<open>
  Claim C1 fails as stated: in the batch of two files sent to folder \<open>folder-7\<close>, the
  first task is \<open>completed\<close> after its upload succeeded and is \<open>error\<close> once the
  relocation has failed.
\<close>

theorem relocation_failure_not_completed:
  "map status (uploads example_loaded) = [Completed, Uploading]
   \<and> map status (uploads example_move_failed) = [Error, Uploading]"
  by (simp add: example_loaded_facts example_move_failed_facts)





lemma map_id_new_items:
  "map item_id (map (\<lambda>(k, f). (new_item k f)\<lparr>status := st\<rparr>) files) = map fst files"
  "map item_name (map (\<lambda>(k, f). (new_item k f)\<lparr>status := st\<rparr>) files) = map (\<lambda>(k, f). file_name f) files"
  by (induction files) (auto simp: new_item_def)

lemma startRealUpload_general:
  "length (uploads (startRealUpload props files s)) = length (uploads s) + length files"
  "drop (length (uploads s)) (uploads (startRealUpload props files s)) =
     map (\<lambda>(k, f). (new_item k f)\<lparr>status := (if truthy (token props) then Uploading else Error)\<rparr>) files"
  "i < length (uploads s) \<Longrightarrow> item_id (uploads s ! i) \<notin> fst ` set files \<Longrightarrow>
     uploads (startRealUpload props files s) ! i = uploads s ! i"
proof -
  have n: "(\<lambda>(k, f). (new_item k f)\<lparr>status := Uploading\<rparr>) = (\<lambda>(k, f). new_item k f)"
    by (auto simp: new_item_def fun_eq_iff)
  show "length (uploads (startRealUpload props files s)) = length (uploads s) + length files"
    by (cases "truthy (token props)") (simp_all add: startRealUpload_token startRealUpload_no_token)
  show "drop (length (uploads s)) (uploads (startRealUpload props files s)) =
     map (\<lambda>(k, f). (new_item k f)\<lparr>status := (if truthy (token props) then Uploading else Error)\<rparr>) files"
    by (cases "truthy (token props)")
       (simp_all add: startRealUpload_token startRealUpload_no_token n)
  show "uploads (startRealUpload props files s) ! i = uploads s ! i"
    if "i < length (uploads s)" "item_id (uploads s ! i) \<notin> fst ` set files"
    using that
    by (cases "truthy (token props)")
       (simp_all add: startRealUpload_token startRealUpload_no_token nth_append mark_error_def)
qed

lemma startRealUpload_calls:
  "\<exists>new. calls (startRealUpload props files s) = calls s @ new"
  by (cases "truthy (token props)") (simp_all add: startRealUpload_token startRealUpload_no_token)


lemma in_phase_set_phase_other:
  "c \<noteq> c' \<Longrightarrow> in_phase c ph (set_phase c' ph' s) = in_phase c ph s"
  by (simp add: in_phase_def set_phase_def)

lemma in_phase_uploads_update [simp]:
  "in_phase c ph (s\<lparr>uploads := us\<rparr>) = in_phase c ph s"
  "in_phase c ph (s\<lparr>requests := rs\<rparr>) = in_phase c ph s"
  "in_phase c ph (s\<lparr>toasts := ts\<rparr>) = in_phase c ph s"
  "in_phase c ph (s\<lparr>timers := tm\<rparr>) = in_phase c ph s"
  "in_phase c ph (s\<lparr>refreshes := n\<rparr>) = in_phase c ph s"
  by (simp_all add: in_phase_def)

lemma in_phase_catch_other:
  "c \<noteq> c' \<Longrightarrow> in_phase c ph (uploadFile_catch c' m s) = in_phase c ph s"
  by (simp add: uploadFile_catch_def Let_def in_phase_set_phase_other)

lemma in_phase_finish_other:
  "c \<noteq> c' \<Longrightarrow> in_phase c ph (uploadFile_finish c' s) = in_phase c ph s"
  by (simp add: uploadFile_finish_def Let_def in_phase_set_phase_other)

lemma in_phase_resume_other:
  "c \<noteq> c' \<Longrightarrow> in_phase c ph (uploadFile_resume c' r s) = in_phase c ph s"
  by (simp add: uploadFile_resume_def Let_def in_phase_catch_other in_phase_finish_other
      in_phase_set_phase_other split: promise_result.splits parsed_json.splits)

lemma in_phase_moved_other:
  "c \<noteq> c' \<Longrightarrow> in_phase c ph (uploadFile_moved c' r s) = in_phase c ph s"
  by (simp add: uploadFile_moved_def in_phase_catch_other in_phase_finish_other
      split: move_result.splits)




text \<open>
  Claim C10. When the auth token is absent (or empty) while files are enqueued, no request
  is issued and no invocation of \<open>uploadFile\<close> is left waiting, so none can follow;
  the batch adds one task per file, each created \<open>uploading\<close> by \<open>new_item\<close> and
  marked \<open>error\<close> in the same turn.
\<close>

theorem upload_without_token:
  assumes "\<not> truthy (token props)"
  shows "requests (startRealUpload props files s) = requests s
       \<and> calls (startRealUpload props files s) = calls s
       \<and> length (uploads (startRealUpload props files s)) = length (uploads s) + length files
       \<and> drop (length (uploads s)) (uploads (startRealUpload props files s))
           = map (\<lambda>(k, f). (new_item k f)\<lparr>status := Error\<rparr>) files"
  using assms by (simp add: startRealUpload_no_token)

lemma example_anon: "\<not> truthy (token example_props_anon)"
  by (simp add: example_props_anon_def truthy_def)

text \<open>Claim C10 at a batch of two files enqueued without a token.\<close>

theorem upload_without_token_witness:
  "\<not> truthy (token example_props_anon)
   \<and> requests (startRealUpload example_props_anon example_batch init_upload_state) = []
   \<and> calls (startRealUpload example_props_anon example_batch init_upload_state) = []
   \<and> map status (uploads (startRealUpload example_props_anon example_batch init_upload_state))
       = [Error, Error]"
proof -
  note w = upload_without_token [OF example_anon, of example_batch init_upload_state]
  have u: "uploads init_upload_state = []" "requests init_upload_state = []"
    "calls init_upload_state = []"
    by (simp_all add: init_upload_state_def)
  have "map status (map (\<lambda>(k, f). (new_item k f)\<lparr>status := Error\<rparr>) example_batch) = [Error, Error]"
    by (simp add: example_batch_def)
  with w show ?thesis
    by (simp add: u example_anon)
qed

text \<open>
  Claim C1, amended. When an upload succeeds (a 2xx response carrying a file id), the
  destination folder is not the root and the relocation call fails, the task is first
  marked \<open>completed\<close> at 100 and one relocation request is sent; the failure then
  marks the task \<open>error\<close>, its progress staying 100, and is reported by one error
  toast. No request is sent again, the refresh hook is not called, no removal timer is
  set, and the invocation has ended.
\<close>

theorem relocation_failure_marks_error:
  assumes "in_phase c AwaitXhr s"
    and "truthy (folderId (call_props (calls s ! c)))"
    and "200 \<le> st" and "st < 300"
    and "truthy fid"
    and "r \<noteq> MoveOk"
  shows "let k = call_uploadId (calls s ! c);
             s1 = upload_step (XhrLoad c st statusText (JsonValue fid msg)) s;
             s2 = upload_step (MoveSettled c r) s1
         in uploads s1 = set_completed k (uploads s)
          \<and> requests s1 = requests s @ [move_request (call_props (calls s ! c)) (the fid)]
          \<and> in_phase c AwaitMove s1
          \<and> uploads s2 = set_error k (set_completed k (uploads s))
          \<and> (\<forall>i < length (uploads s). item_id (uploads s ! i) = k \<longrightarrow>
                status (uploads s2 ! i) = Error \<and> progress (uploads s2 ! i) = Num 100)
          \<and> (\<exists>m. toasts s2 = toasts s @ [(ToastError, m)])
          \<and> requests s2 = requests s1
          \<and> refreshes s2 = refreshes s
          \<and> timers s2 = timers s
          \<and> in_phase c Settled s2"
proof -
  define k where "k = call_uploadId (calls s ! c)"
  define s1 where "s1 = upload_step (XhrLoad c st statusText (JsonValue fid msg)) s"
  define s2 where "s2 = upload_step (MoveSettled c r) s1"
  have c: "c < length (calls s)" using assms(1) by (simp add: in_phase_def)
  have s1: "s1 = set_phase c AwaitMove
      (s\<lparr>uploads := set_completed k (uploads s),
         requests := requests s @ [move_request (call_props (calls s ! c)) (the fid)]\<rparr>)"
    unfolding s1_def k_def by (rule step_load_to_move [OF assms(1-5)])
  have a1: "uploads s1 = set_completed k (uploads s)" by (simp add: s1)
  have a2: "requests s1 = requests s @ [move_request (call_props (calls s ! c)) (the fid)]"
    by (simp add: s1)
  have a3: "in_phase c AwaitMove s1" using c by (simp add: s1)
  have a4: "toasts s1 = toasts s" "refreshes s1 = refreshes s" "timers s1 = timers s"
    by (simp_all add: s1)
  have k1: "call_uploadId (calls s1 ! c) = k" by (simp add: s1 k_def)
  have c1: "c < length (calls s1)" using a3 by (simp add: in_phase_def)
  obtain m where m: "upload_step (MoveSettled c r) s1 = uploadFile_catch c m s1"
    using step_move_failed [OF a3 assms(6)] ..
  have s2: "s2 = uploadFile_catch c m s1"
    using m by (simp add: s2_def)
  have b1: "uploads s2 = set_error k (set_completed k (uploads s))"
    by (simp add: s2 catch_fields k1 a1)
  have b2: "\<forall>i < length (uploads s). item_id (uploads s ! i) = k \<longrightarrow>
                status (uploads s2 ! i) = Error \<and> progress (uploads s2 ! i) = Num 100"
    by (simp add: b1 error_after_completed)
  have "toasts s2 = toasts s @
      [(ToastError, ''Failed to upload \"'' @ file_name (call_file (calls s1 ! c)) @ ''\": '' @ m)]"
    by (simp add: s2 catch_fields a4)
  then have b3: "\<exists>m. toasts s2 = toasts s @ [(ToastError, m)]" ..
  have b4: "requests s2 = requests s1" "refreshes s2 = refreshes s" "timers s2 = timers s"
    by (simp_all add: s2 catch_fields a4)
  have b5: "in_phase c Settled s2" using c1 by (simp add: s2 catch_phase)
  show ?thesis
    unfolding Let_def k_def [symmetric] s1_def [symmetric] s2_def [symmetric]
    by (intro conjI a1 a2 a3 b1 b2 b3 b4 b5)
qed

text \<open>Claim C1, amended, at the first file of the batch of two.\<close>

theorem relocation_failure_witness:
  "in_phase 0 AwaitXhr example_started
   \<and> truthy (folderId (call_props (calls example_started ! 0)))
   \<and> (200::nat) \<le> 201 \<and> (201::nat) < 300
   \<and> truthy (Some ''file-9'')
   \<and> MoveNotOk (JsonValue None (Some ''folder not found'')) ''Not Found'' \<noteq> MoveOk
   \<and> map status (uploads example_loaded) = [Completed, Uploading]
   \<and> map status (uploads example_move_failed) = [Error, Uploading]
   \<and> map progress (uploads example_move_failed) = [Num 100, Num 0]
   \<and> requests example_move_failed = requests example_loaded
   \<and> refreshes example_move_failed = refreshes example_started"
proof -
  have t: "truthy (Some ''file-9'')" by (simp add: truthy_def)
  have n: "(200::nat) \<le> 201" "(201::nat) < 300" by simp_all
  have r: "MoveNotOk (JsonValue None (Some ''folder not found'')) ''Not Found'' \<noteq> MoveOk" by simp
  note w = relocation_failure_marks_error [OF example_started_facts(1) example_started_facts(3) n t r,
      of "''Created''" None, unfolded Let_def, folded example_loaded_def,
      folded example_move_failed_def]
  from w have "requests example_move_failed = requests example_loaded"
    and "refreshes example_move_failed = refreshes example_started"
    by simp_all
  then show ?thesis
    using t r example_started_facts(1) example_started_facts(3)
    by (simp add: example_loaded_facts example_move_failed_facts)
qed






lemma status_after_resume_nth:
  assumes "i < length (uploads s)" and "item_id (uploads s ! i) = call_uploadId (calls s ! c)"
  shows "status (uploads (uploadFile_resume c r s) ! i) \<in> {Completed, Error}"
  using assms
  by (simp add: uploadFile_resume_def Let_def catch_fields finish_fields
      set_error_def set_completed_def
      split: promise_result.splits parsed_json.splits)

lemma settles_is_resume:
  assumes "settles_xhr e c" and "in_phase c AwaitXhr s"
  shows "\<exists>r. upload_step e s = uploadFile_resume c r s"
proof (cases e)
  case (XhrLoad c' st stx body)
  with assms have "upload_step e s = uploadFile_resume c (xhr_onload st stx body) s" by simp
  then show ?thesis ..
next
  case (XhrError c')
  with assms have "upload_step e s = uploadFile_resume c xhr_onerror s" by simp
  then show ?thesis ..
next
  case (XhrTimeout c')
  with assms have "upload_step e s = uploadFile_resume c xhr_ontimeout s" by simp
  then show ?thesis ..
qed (use assms in simp_all)

text \<open>
  Claim C8. Enqueuing a batch adds exactly one task per file, in order, with the ids and
  names of the files, and changes no earlier task with another id. A transport event of
  an invocation keeps the number of tasks and changes no task whose id differs from the
  invocation's upload id. When the request of an invocation ends (load, error or
  timeout), every task with its upload id is \<open>completed\<close> or \<open>error\<close>.
\<close>

theorem upload_tasks_independent:
  assumes "event_call e = Some c" and "settles_xhr e' c'" and "in_phase c' AwaitXhr s"
  shows "length (uploads (startRealUpload props files s)) = length (uploads s) + length files
       \<and> map item_id (drop (length (uploads s)) (uploads (startRealUpload props files s)))
           = map fst files
       \<and> map item_name (drop (length (uploads s)) (uploads (startRealUpload props files s)))
           = map (\<lambda>(k, f). file_name f) files
       \<and> (\<forall>i < length (uploads s). item_id (uploads s ! i) \<notin> fst ` set files \<longrightarrow>
             uploads (startRealUpload props files s) ! i = uploads s ! i)
       \<and> length (uploads (upload_step e s)) = length (uploads s)
       \<and> (\<forall>i < length (uploads s). item_id (uploads s ! i) \<noteq> call_uploadId (calls s ! c) \<longrightarrow>
             uploads (upload_step e s) ! i = uploads s ! i)
       \<and> (\<forall>i < length (uploads s). item_id (uploads s ! i) = call_uploadId (calls s ! c') \<longrightarrow>
             status (uploads (upload_step e' s) ! i) \<in> {Completed, Error})"
proof -
  obtain r where r: "upload_step e' s = uploadFile_resume c' r s"
    using settles_is_resume [OF assms(2,3)] ..
  have 7: "\<forall>i < length (uploads s). item_id (uploads s ! i) = call_uploadId (calls s ! c') \<longrightarrow>
             status (uploads (upload_step e' s) ! i) \<in> {Completed, Error}"
    unfolding r using status_after_resume_nth [of _ s c' r] by (intro allI impI)
  have 2: "map item_id (drop (length (uploads s)) (uploads (startRealUpload props files s)))
           = map fst files"
    by (simp only: startRealUpload_general(2) map_id_new_items)
  have 3: "map item_name (drop (length (uploads s)) (uploads (startRealUpload props files s)))
           = map (\<lambda>(k, f). file_name f) files"
    by (simp only: startRealUpload_general(2) map_id_new_items)
  have 4: "\<forall>i < length (uploads s). item_id (uploads s ! i) \<notin> fst ` set files \<longrightarrow>
             uploads (startRealUpload props files s) ! i = uploads s ! i"
    using startRealUpload_general(3) [of _ s files props] by (intro allI impI)
  show ?thesis
    by (intro conjI startRealUpload_general(1) 2 3 4 7
        step_frame [OF assms(1), of s, THEN conjunct1] step_frame [OF assms(1), of s, THEN conjunct2])
qed

text \<open>Claim C8 at the batch of two files: the first request times out.\<close>

theorem upload_tasks_independent_witness:
  "event_call (XhrTimeout 0) = Some 0 \<and> settles_xhr (XhrTimeout 0) 0
   \<and> in_phase 0 AwaitXhr example_started
   \<and> length (uploads (startRealUpload example_props example_later_batch example_started)) = 3
   \<and> map item_id (uploads (startRealUpload example_props example_later_batch example_started))
       = [''upload-1'', ''upload-2'', ''upload-3'']
   \<and> map status (uploads example_timed_out) = [Error, Uploading]
   \<and> uploads example_timed_out ! 1 = uploads example_started ! 1"
proof -
  have e: "event_call (XhrTimeout 0) = Some 0" "settles_xhr (XhrTimeout 0) 0" by simp_all
  note w = upload_tasks_independent [OF e example_started_facts(1), of example_props example_later_batch,
      folded example_timed_out_def]
  have l: "length (uploads example_started) = 2"
    using arg_cong [OF example_started_facts(4), of length] by simp
  have i1: "item_id (uploads example_started ! 1) = ''upload-2''"
    by (simp add: example_started_eq new_item_def)
  from w have a: "length (uploads (startRealUpload example_props example_later_batch example_started)) = 3"
    and b: "drop 2 (map item_id (uploads (startRealUpload example_props example_later_batch example_started)))
       = [''upload-3'']"
    and c: "\<forall>i<2. item_id (uploads example_started ! i) \<noteq> ''upload-3'' \<longrightarrow>
             uploads (startRealUpload example_props example_later_batch example_started) ! i
               = uploads example_started ! i"
    and d: "\<forall>i<2. item_id (uploads example_started ! i) \<noteq> ''upload-1'' \<longrightarrow>
             uploads example_timed_out ! i = uploads example_started ! i"
    by (simp_all add: l example_later_batch_def example_started_facts(2) drop_map)
  have f: "uploads example_timed_out ! 1 = uploads example_started ! 1"
    using d [rule_format, of 1] i1 by simp
  have g: "map item_id (uploads (startRealUpload example_props example_later_batch example_started))
       = [''upload-1'', ''upload-2'', ''upload-3'']"
    by (simp only: startRealUpload_token [OF example_token])
       (simp add: example_started_facts(6) example_later_batch_def new_item_def)
  show ?thesis
    by (intro conjI e example_started_facts(1) a g example_timed_out_facts(1) f)
qed



section \<open>Preview resolver: lemmas\<close>

subsection \<open>What each primitive changes\<close>

lemma abort_fields [simp]:
  "currentBlobUrl (abort c s) = currentBlobUrl s"
  "currentFileId (abort c s) = currentFileId s"
  "abortController (abort c s) = abortController s"
  "loadingRef (abort c s) = loadingRef s"
  "previewUrlRef (abort c s) = previewUrlRef s"
  "loading (abort c s) = loading s"
  "previewUrl (abort c s) = previewUrl s"
  "error (abort c s) = error s"
  "fetches (abort c s) = fetches s"
  "timeouts (abort c s) = timeouts s"
  "created (abort c s) = created s"
  "revoked (abort c s) = revoked s"
  "length (signals (abort c s)) = length (signals s)"
  by (simp_all add: abort_def)

lemma set_inv_phase_fields [simp]:
  "currentBlobUrl (set_inv_phase c ph s) = currentBlobUrl s"
  "currentFileId (set_inv_phase c ph s) = currentFileId s"
  "abortController (set_inv_phase c ph s) = abortController s"
  "loadingRef (set_inv_phase c ph s) = loadingRef s"
  "previewUrlRef (set_inv_phase c ph s) = previewUrlRef s"
  "loading (set_inv_phase c ph s) = loading s"
  "previewUrl (set_inv_phase c ph s) = previewUrl s"
  "error (set_inv_phase c ph s) = error s"
  "fetches (set_inv_phase c ph s) = fetches s"
  "timeouts (set_inv_phase c ph s) = timeouts s"
  "created (set_inv_phase c ph s) = created s"
  "revoked (set_inv_phase c ph s) = revoked s"
  "length (signals (set_inv_phase c ph s)) = length (signals s)"
  by (simp_all add: set_inv_phase_def)

lemma aborted_set_inv_phase [simp]: "aborted c' (set_inv_phase c ph s) = aborted c' s"
proof (cases "c < length (signals s)")
  case True
  then show ?thesis by (simp add: aborted_def set_inv_phase_def nth_list_update)
next
  case False
  then show ?thesis by (simp add: aborted_def set_inv_phase_def list_update_beyond)
qed

lemma inv_in_phase_set_inv_phase [simp]:
  "c < length (signals s) \<Longrightarrow> inv_in_phase c ph' (set_inv_phase c ph s) = (ph' = ph)"
  by (auto simp: inv_in_phase_def set_inv_phase_def)

lemma catch_block_fields [simp]:
  "currentBlobUrl (catch_block c msg s) = currentBlobUrl s"
  "currentFileId (catch_block c msg s) = currentFileId s"
  "abortController (catch_block c msg s) = abortController s"
  "loadingRef (catch_block c msg s) = loadingRef s"
  "loading (catch_block c msg s) = loading s"
  "fetches (catch_block c msg s) = fetches s"
  "timeouts (catch_block c msg s) = timeouts s"
  "created (catch_block c msg s) = created s"
  "revoked (catch_block c msg s) = revoked s"
  "signals (catch_block c msg s) = signals s"
  by (simp_all add: catch_block_def)

lemma aborted_catch_block [simp]: "aborted c' (catch_block c msg s) = aborted c' s"
  by (simp add: aborted_def)

lemma catch_block_live:
  "\<not> aborted c s \<Longrightarrow> error (catch_block c msg s) = Some msg"
  "\<not> aborted c s \<Longrightarrow> previewUrl (catch_block c msg s) = None"
  "\<not> aborted c s \<Longrightarrow> previewUrlRef (catch_block c msg s) = None"
  by (simp_all add: catch_block_def)

lemma finally_block_fields [simp]:
  "currentBlobUrl (finally_block c s) = currentBlobUrl s"
  "currentFileId (finally_block c s) = currentFileId s"
  "abortController (finally_block c s) = abortController s"
  "previewUrlRef (finally_block c s) = previewUrlRef s"
  "previewUrl (finally_block c s) = previewUrl s"
  "error (finally_block c s) = error s"
  "fetches (finally_block c s) = fetches s"
  "timeouts (finally_block c s) = timeouts s"
  "created (finally_block c s) = created s"
  "revoked (finally_block c s) = revoked s"
  "length (signals (finally_block c s)) = length (signals s)"
  by (simp_all add: finally_block_def)

lemma finally_block_live:
  "\<not> aborted c s \<Longrightarrow> \<not> loading (finally_block c s)"
  "\<not> aborted c s \<Longrightarrow> \<not> loadingRef (finally_block c s)"
  by (simp_all add: finally_block_def)

lemma begin_attempt_fields [simp]:
  "currentBlobUrl (begin_attempt f s) = currentBlobUrl s"
  "currentFileId (begin_attempt f s) = Some (file_id f)"
  "abortController (begin_attempt f s) = Some (length (signals s))"
  "loadingRef (begin_attempt f s)"
  "previewUrlRef (begin_attempt f s) = previewUrlRef s"
  "loading (begin_attempt f s)"
  "previewUrl (begin_attempt f s) = previewUrl s"
  "error (begin_attempt f s) = None"
  "fetches (begin_attempt f s) = fetches s"
  "timeouts (begin_attempt f s) = timeouts s"
  "created (begin_attempt f s) = created s"
  "revoked (begin_attempt f s) = revoked s"
  "length (signals (begin_attempt f s)) = Suc (length (signals s))"
  by (simp_all add: begin_attempt_def Let_def split: option.splits)

lemma begin_attempt_signal:
  "\<not> aborted (length (signals s)) (begin_attempt f s)"
  "inv_in_phase (length (signals s)) AwaitRace (begin_attempt f s)"
  by (simp_all add: begin_attempt_def Let_def aborted_def inv_in_phase_def nth_append
      split: option.splits)

lemma reset_fields [simp]:
  "currentBlobUrl (reset s) = None"
  "currentFileId (reset s) = None"
  "abortController (reset s) = None"
  "\<not> loadingRef (reset s)"
  "previewUrlRef (reset s) = None"
  "\<not> loading (reset s)"
  "previewUrl (reset s) = None"
  "error (reset s) = None"
  "fetches (reset s) = fetches s"
  "created (reset s) = created s"
  "revoked (reset s) = revoked s @ (case currentBlobUrl s of None \<Rightarrow> [] | Some u \<Rightarrow> [u])"
  "length (signals (reset s)) = length (signals s)"
  by (simp_all add: reset_def Let_def revokeObjectURL_def split: option.splits)

lemma cleanup_fields [simp]:
  "currentBlobUrl (cleanup s) = None"
  "currentFileId (cleanup s) = currentFileId s"
  "abortController (cleanup s) = None"
  "loadingRef (cleanup s) = loadingRef s"
  "previewUrlRef (cleanup s) = previewUrlRef s"
  "loading (cleanup s) = loading s"
  "previewUrl (cleanup s) = previewUrl s"
  "error (cleanup s) = error s"
  "fetches (cleanup s) = fetches s"
  "created (cleanup s) = created s"
  "revoked (cleanup s) = revoked s @ (case currentBlobUrl s of None \<Rightarrow> [] | Some u \<Rightarrow> [u])"
  "length (signals (cleanup s)) = length (signals s)"
  by (simp_all add: cleanup_def Let_def revokeObjectURL_def split: option.splits)

lemma commit_blob_fields:
  "aborted c s \<Longrightarrow> currentBlobUrl (commit_blob c s) = currentBlobUrl s"
  "aborted c s \<Longrightarrow> created (commit_blob c s) = created s"
  "aborted c s \<Longrightarrow> revoked (commit_blob c s) = revoked s"
  "\<not> aborted c s \<Longrightarrow> currentBlobUrl (commit_blob c s) = Some (created s)"
  "\<not> aborted c s \<Longrightarrow> created (commit_blob c s) = Suc (created s)"
  "\<not> aborted c s \<Longrightarrow> revoked (commit_blob c s)
      = revoked s @ (case currentBlobUrl s of None \<Rightarrow> [] | Some u \<Rightarrow> [u])"
  "\<not> aborted c s \<Longrightarrow> previewUrlRef (commit_blob c s) = Some (created s)"
  "\<not> aborted c s \<Longrightarrow> previewUrl (commit_blob c s) = Some (created s)"
  "\<not> aborted c s \<Longrightarrow> \<not> loadingRef (commit_blob c s)"
  "\<not> aborted c s \<Longrightarrow> \<not> loading (commit_blob c s)"
  "fetches (commit_blob c s) = fetches s"
  "currentFileId (commit_blob c s) = currentFileId s"
  "abortController (commit_blob c s) = abortController s"
  "length (signals (commit_blob c s)) = length (signals s)"
  by (simp_all add: commit_blob_def Let_def revokeObjectURL_def finally_block_def aborted_def
      split: option.splits)

subsection \<open>The outcomes of \<open>loadFilePreview\<close>\<close>

lemma load_guarded:
  assumes "fileProp props = Some f" and "isOpen props" and "same_file_guard f s"
  shows "loadFilePreview props s = s"
  using assms by (simp add: loadFilePreview_def)

lemma load_closed:
  "fileProp props = None \<or> \<not> isOpen props \<Longrightarrow> loadFilePreview props s = reset s"
  by (auto simp: loadFilePreview_def split: option.splits)

lemma load_unfold:
  assumes "fileProp props = Some f" and "isOpen props" and "\<not> same_file_guard f s"
  shows "loadFilePreview props s =
     (if fetched_kind (mime_type f)
      then (case precheck props f of
              Some msg \<Rightarrow> finally_block (length (signals s))
                           (catch_block (length (signals s)) msg (begin_attempt f s))
            | None \<Rightarrow>
                (begin_attempt f s)
                  \<lparr>timeouts := timeouts (begin_attempt f s) @
                      [(length (signals s), if isVideoFile (mime_type f) then 60000 else 30000)],
                   fetches := fetches (begin_attempt f s) @
                      [(length (signals s), download_request props f)]\<rparr>)
      else finally_block (length (signals s))
             ((begin_attempt f s)\<lparr>previewUrl := None, previewUrlRef := None\<rparr>))"
  using assms
  by (simp add: loadFilePreview_def Let_def)

lemma load_throws:
  assumes "fileProp props = Some f" and "isOpen props" and "\<not> same_file_guard f s"
    and "fetched_kind (mime_type f)" and "precheck props f = Some msg"
  shows "error (loadFilePreview props s) = Some msg"
    and "fetches (loadFilePreview props s) = fetches s"
    and "previewUrl (loadFilePreview props s) = None"
    and "previewUrlRef (loadFilePreview props s) = None"
    and "\<not> loading (loadFilePreview props s)"
    and "\<not> loadingRef (loadFilePreview props s)"
    and "currentFileId (loadFilePreview props s) = Some (file_id f)"
  using assms(4,5) begin_attempt_signal(1) [of s f]
  by (simp_all add: load_unfold [OF assms(1-3)] catch_block_live finally_block_live)

lemma load_fetches:
  assumes "fileProp props = Some f" and "isOpen props" and "\<not> same_file_guard f s"
    and "fetched_kind (mime_type f)" and "precheck props f = None"
  shows "fetches (loadFilePreview props s) = fetches s @ [(length (signals s), download_request props f)]"
    and "loading (loadFilePreview props s)"
    and "loadingRef (loadFilePreview props s)"
    and "error (loadFilePreview props s) = None"
    and "currentFileId (loadFilePreview props s) = Some (file_id f)"
    and "abortController (loadFilePreview props s) = Some (length (signals s))"
    and "currentBlobUrl (loadFilePreview props s) = currentBlobUrl s"
    and "created (loadFilePreview props s) = created s"
    and "revoked (loadFilePreview props s) = revoked s"
    and "previewUrlRef (loadFilePreview props s) = previewUrlRef s"
    and "length (signals (loadFilePreview props s)) = Suc (length (signals s))"
    and "\<not> aborted (length (signals s)) (loadFilePreview props s)"
    and "inv_in_phase (length (signals s)) AwaitRace (loadFilePreview props s)"
  using assms(4,5) begin_attempt_signal [of s f]
  by (simp_all add: load_unfold [OF assms(1-3)] aborted_def inv_in_phase_def)

lemma load_not_fetched_kind:
  assumes "fileProp props = Some f" and "isOpen props" and "\<not> same_file_guard f s"
    and "\<not> fetched_kind (mime_type f)"
  shows "fetches (loadFilePreview props s) = fetches s"
    and "previewUrl (loadFilePreview props s) = None"
    and "previewUrlRef (loadFilePreview props s) = None"
    and "error (loadFilePreview props s) = None"
    and "\<not> loading (loadFilePreview props s)"
    and "\<not> loadingRef (loadFilePreview props s)"
proof -
  have a: "\<not> aborted (length (signals s)) ((begin_attempt f s)\<lparr>previewUrl := None, previewUrlRef := None\<rparr>)"
    using begin_attempt_signal(1) [of s f] by (simp add: aborted_def)
  show "fetches (loadFilePreview props s) = fetches s"
    and "previewUrl (loadFilePreview props s) = None"
    and "previewUrlRef (loadFilePreview props s) = None"
    and "error (loadFilePreview props s) = None"
    and "\<not> loading (loadFilePreview props s)"
    and "\<not> loadingRef (loadFilePreview props s)"
    using assms(4) finally_block_live [OF a]
    by (simp_all add: load_unfold [OF assms(1-3)])
qed

lemma load_never_fetches_when_thrown:
  assumes "fileProp props = Some f" and "isOpen props" and "precheck props f \<noteq> None"
  shows "fetches (loadFilePreview props s) = fetches s"
proof (cases "same_file_guard f s")
  case True
  then show ?thesis by (simp add: load_guarded [OF assms(1,2)])
next
  case False
  show ?thesis
  proof (cases "fetched_kind (mime_type f)")
    case True
    from assms(3) obtain msg where "precheck props f = Some msg" by (cases "precheck props f") auto
    from load_throws(2) [OF assms(1,2) False True this] show ?thesis .
  next
    case nk: False
    from load_not_fetched_kind(1) [OF assms(1,2) False nk] show ?thesis .
  qed
qed



subsection \<open>The kinds exclude one another\<close>

lemma startsWith_Cons: "startsWith m (c # p) \<Longrightarrow> \<exists>t. m = c # t"
  by (cases m) (simp_all add: startsWith_def)

lemma video_not_text: "isVideoFile m \<Longrightarrow> \<not> isTextFile m"
proof
  assume v: "isVideoFile m" and t: "isTextFile m"
  from v obtain r where r: "m = CHR ''v'' # r"
    unfolding isVideoFile_def using startsWith_Cons [of m "CHR ''v''"] by auto
  from t show False
    unfolding isTextFile_def r using startsWith_Cons [of "CHR ''v'' # r" "CHR ''t''"] by auto
qed

lemma pdf_not_text_video: "isPDFFile m \<Longrightarrow> \<not> isTextFile m \<and> \<not> isVideoFile m"
  by (simp add: isPDFFile_def isTextFile_def isVideoFile_def startsWith_def)

lemma precheck_auth:
  "\<not> truthy (auth_token props) \<Longrightarrow> \<not> isPublic props \<Longrightarrow>
   precheck props f = Some ''Authentication required for file preview''"
  by (simp add: precheck_def)

lemma precheck_text:
  "truthy (auth_token props) \<or> isPublic props \<Longrightarrow> isTextFile (mime_type f) \<Longrightarrow>
   500000 < size_bytes f \<Longrightarrow>
   precheck props f = Some ''Text file too large for preview (max 500KB)''"
  by (auto simp: precheck_def)

lemma precheck_video:
  "truthy (auth_token props) \<or> isPublic props \<Longrightarrow> isVideoFile (mime_type f) \<Longrightarrow>
   100000000 < size_bytes f \<Longrightarrow>
   precheck props f = Some ''Video file too large for preview (max 100MB)''"
  using video_not_text [of "mime_type f"] by (auto simp: precheck_def)

lemma precheck_pdf:
  "truthy (auth_token props) \<or> isPublic props \<Longrightarrow> isPDFFile (mime_type f) \<Longrightarrow>
   50000000 < size_bytes f \<Longrightarrow>
   precheck props f = Some ''PDF file too large for preview (max 50MB)''"
  using pdf_not_text_video [of "mime_type f"] by (auto simp: precheck_def)

lemma precheck_passes:
  assumes "truthy (auth_token props) \<or> isPublic props"
    and "isTextFile (mime_type f) \<longrightarrow> size_bytes f \<le> 500000"
    and "isVideoFile (mime_type f) \<longrightarrow> size_bytes f \<le> 100000000"
    and "isPDFFile (mime_type f) \<longrightarrow> size_bytes f \<le> 50000000"
  shows "precheck props f = None"
  using assms by (auto simp: precheck_def)

subsection \<open>The example files\<close>

lemma init_preview_fields:
  "currentBlobUrl init_preview_state = None"
  "currentFileId init_preview_state = None"
  "abortController init_preview_state = None"
  "\<not> loadingRef init_preview_state"
  "previewUrlRef init_preview_state = None"
  "fetches init_preview_state = []"
  "signals init_preview_state = []"
  "created init_preview_state = 0"
  "revoked init_preview_state = []"
  by (simp_all add: init_preview_state_def)

lemma init_no_guard: "\<not> same_file_guard f init_preview_state"
  by (simp add: same_file_guard_def init_preview_fields)

lemma open_fields:
  "fileProp (open_on f) = Some f" "isOpen (open_on f)"
  "auth_token (open_on f) = Some ''secret''" "\<not> isPublic (open_on f)"
  "baseUrl (open_on f) = example_base"
  "fileProp (open_anon f) = Some f" "isOpen (open_anon f)"
  "auth_token (open_anon f) = None" "\<not> isPublic (open_anon f)"
  "baseUrl (open_anon f) = example_base"
  "fileProp (open_public f) = Some f" "isOpen (open_public f)"
  "auth_token (open_public f) = Some ''secret''" "isPublic (open_public f)"
  "baseUrl (open_public f) = example_base"
  by (simp_all add: open_on_def open_anon_def open_public_def)

lemma example_kinds:
  "\<not> fetched_kind (mime_type example_xml)"
  "isText (mime_type example_xml)"
  "\<not> isImage (mime_type example_xml)"
  "isTextFile (mime_type example_big_text)"
  "fetched_kind (mime_type example_big_text)"
  "isPDFFile (mime_type example_shared_pdf)"
  "fetched_kind (mime_type example_shared_pdf)"
  "isImageFile (mime_type example_image)"
  "fetched_kind (mime_type example_image)"
  "\<not> isTextFile (mime_type example_image)"
  "\<not> isVideoFile (mime_type example_image)"
  "\<not> isPDFFile (mime_type example_image)"
  "hasPublicToken example_shared_pdf"
  "\<not> hasPublicToken example_image"
  "isImage (mime_type example_image)"
  by (simp_all add: example_xml_def example_big_text_def example_shared_pdf_def example_image_def
      fetched_kind_def isImageFile_def isTextFile_def isPDFFile_def isVideoFile_def isText_def
      isImage_def startsWith_def hasPublicToken_def)

lemma example_prechecks:
  "precheck (open_anon example_big_text) example_big_text
     = Some ''Authentication required for file preview''"
  "precheck (open_on example_big_text) example_big_text
     = Some ''Text file too large for preview (max 500KB)''"
  "precheck (open_anon example_shared_pdf) example_shared_pdf
     = Some ''Authentication required for file preview''"
  "precheck (open_on example_shared_pdf) example_shared_pdf = None"
  "precheck (open_on example_image) example_image = None"
  "precheck (open_public example_image) example_image = None"
proof -
  have t: "truthy (Some ''secret'')" "\<not> truthy None" by (simp_all add: truthy_def)
  show "precheck (open_anon example_big_text) example_big_text
     = Some ''Authentication required for file preview''"
    "precheck (open_anon example_shared_pdf) example_shared_pdf
     = Some ''Authentication required for file preview''"
    by (simp_all add: precheck_auth open_fields t)
  show "precheck (open_on example_big_text) example_big_text
     = Some ''Text file too large for preview (max 500KB)''"
    by (rule precheck_text) (simp_all add: open_fields t example_kinds, simp add: example_big_text_def)
  have p: "size_bytes example_shared_pdf \<le> 50000000" by (simp add: example_shared_pdf_def)
  show "precheck (open_on example_shared_pdf) example_shared_pdf = None"
    using pdf_not_text_video [OF example_kinds(6)] p
    by (intro precheck_passes) (simp_all add: open_fields t)
  show "precheck (open_on example_image) example_image = None"
    "precheck (open_public example_image) example_image = None"
    by (intro precheck_passes; simp add: open_fields t example_kinds)+
qed

lemma example_requests:
  "download_request (open_on example_shared_pdf) example_shared_pdf =
     \<lparr>req_method = ''GET'', req_url = ''http://localhost:8080/api/v1/p/tok123'',
      req_headers = [], req_timeout = 0, req_body = NoBody\<rparr>"
  "download_request (open_on example_image) example_image =
     \<lparr>req_method = ''GET'', req_url = ''http://localhost:8080/api/v1/files/f-img/download'',
      req_headers = [(''Authorization'', ''Bearer secret'')], req_timeout = 0, req_body = NoBody\<rparr>"
  "download_request (open_public example_image) example_image =
     \<lparr>req_method = ''GET'', req_url = ''http://localhost:8080/api/v1/files/f-img/download'',
      req_headers = [], req_timeout = 0, req_body = NoBody\<rparr>"
  by (simp_all add: download_request_def example_kinds open_fields example_base_def)
     (simp_all add: example_shared_pdf_def example_image_def)

text \<open>
  Claim C3 fails on the code: for a file of type \<open>application/xml\<close> opened by a
  signed-in user, \<open>loadFilePreview\<close> does not count the type among the text types,
  fetches nothing and leaves no preview URL, while the modal, which does count it as
  text, shows that the preview failed to load.
\<close>

theorem xml_is_not_fetched:
  "fetches (loadFilePreview (open_on example_xml) init_preview_state) = []
   \<and> previewUrl (loadFilePreview (open_on example_xml) init_preview_state) = None
   \<and> error (loadFilePreview (open_on example_xml) init_preview_state) = None
   \<and> \<not> loading (loadFilePreview (open_on example_xml) init_preview_state)
   \<and> \<not> isTextFile (mime_type example_xml)
   \<and> isText (mime_type example_xml)
   \<and> PreviewModal (open_on example_xml) (loadFilePreview (open_on example_xml) init_preview_state)
       = PreviewFailedToLoad"
proof -
  let ?s = "loadFilePreview (open_on example_xml) init_preview_state"
  note l = load_not_fetched_kind [OF open_fields(1,2) init_no_guard example_kinds(1)]
  have n: "\<not> isTextFile (mime_type example_xml)"
    using example_kinds(1) by (simp add: fetched_kind_def)
  have p: "isPDF (mime_type example_xml) = False" "isVideo (mime_type example_xml) = False"
    by (simp_all add: example_xml_def isPDF_def isVideo_def startsWith_def)
  have "renderPreview example_xml ?s = PreviewFailedToLoad"
    using l example_kinds(2,3)
    by (simp add: renderPreview_def Let_def truthy_def p)
  then have "PreviewModal (open_on example_xml) ?s = PreviewFailedToLoad"
    by (simp add: PreviewModal_def open_fields)
  with l n example_kinds(2) show ?thesis
    by (simp add: init_preview_fields)
qed

text \<open>
  Claim C5 fails as stated: a plain-text file of 600000 bytes opened without a token
  outside a public context ends in the state ``Authentication required'', not in the
  state ``too large''; nothing is fetched.
\<close>

theorem too_large_without_token_is_auth_error:
  "error (loadFilePreview (open_anon example_big_text) init_preview_state)
     = Some ''Authentication required for file preview''
   \<and> error (loadFilePreview (open_anon example_big_text) init_preview_state)
     \<noteq> Some ''Text file too large for preview (max 500KB)''
   \<and> fetches (loadFilePreview (open_anon example_big_text) init_preview_state) = []"
  using load_throws(1,2) [OF open_fields(6,7) init_no_guard example_kinds(5) example_prechecks(1)]
  by (simp add: init_preview_fields)

text \<open>
  Claim C5, amended. For an open file that \<open>loadFilePreview\<close> classifies as text,
  video or PDF and whose size exceeds the ceiling of its kind (500000, 100000000,
  50000000 bytes), no fetch is issued. Unless the file is already the current one, the
  attempt ends at once without a preview URL: with a token or in a public context in the
  ``too large'' error of its kind, and otherwise in ``Authentication required''.
\<close>

theorem too_large_short_circuits:
  assumes "fileProp props = Some f" and "isOpen props"
    and "isTextFile (mime_type f) \<and> 500000 < size_bytes f
       \<or> isVideoFile (mime_type f) \<and> 100000000 < size_bytes f
       \<or> isPDFFile (mime_type f) \<and> 50000000 < size_bytes f"
  shows "fetches (loadFilePreview props s) = fetches s
     \<and> (\<not> same_file_guard f s \<longrightarrow>
          error (loadFilePreview props s) =
            Some (if \<not> truthy (auth_token props) \<and> \<not> isPublic props
                  then ''Authentication required for file preview''
                  else if isTextFile (mime_type f)
                  then ''Text file too large for preview (max 500KB)''
                  else if isVideoFile (mime_type f)
                  then ''Video file too large for preview (max 100MB)''
                  else ''PDF file too large for preview (max 50MB)'')
        \<and> previewUrl (loadFilePreview props s) = None
        \<and> \<not> loading (loadFilePreview props s))"
proof -
  let ?msg = "if \<not> truthy (auth_token props) \<and> \<not> isPublic props
                  then ''Authentication required for file preview''
                  else if isTextFile (mime_type f)
                  then ''Text file too large for preview (max 500KB)''
                  else if isVideoFile (mime_type f)
                  then ''Video file too large for preview (max 100MB)''
                  else ''PDF file too large for preview (max 50MB)''"
  have k: "fetched_kind (mime_type f)"
    using assms(3) by (auto simp: fetched_kind_def)
  have p: "precheck props f = Some ?msg"
  proof (cases "\<not> truthy (auth_token props) \<and> \<not> isPublic props")
    case True
    then show ?thesis by (simp add: precheck_auth)
  next
    case False
    then have c: "truthy (auth_token props) \<or> isPublic props" by simp
    show ?thesis
      using assms(3) precheck_text [OF c, of f] precheck_video [OF c, of f] precheck_pdf [OF c, of f]
        video_not_text [of "mime_type f"] pdf_not_text_video [of "mime_type f"] False
      by auto
  qed
  have 1: "fetches (loadFilePreview props s) = fetches s"
    using p by (intro load_never_fetches_when_thrown [OF assms(1,2)]) simp
  have 2: "\<not> same_file_guard f s \<longrightarrow>
          error (loadFilePreview props s) = Some ?msg
        \<and> previewUrl (loadFilePreview props s) = None
        \<and> \<not> loading (loadFilePreview props s)"
  proof
    assume g: "\<not> same_file_guard f s"
    from load_throws(1,3,5) [OF assms(1,2) g k p]
    show "error (loadFilePreview props s) = Some ?msg
        \<and> previewUrl (loadFilePreview props s) = None
        \<and> \<not> loading (loadFilePreview props s)"
      by (intro conjI)
  qed
  from 1 2 show ?thesis by (rule conjI)
qed



text \<open>Claim C5, amended, at the plain-text file of 600000 bytes opened by a signed-in user.\<close>

theorem too_large_short_circuits_witness:
  "fileProp (open_on example_big_text) = Some example_big_text
   \<and> isOpen (open_on example_big_text)
   \<and> isTextFile (mime_type example_big_text) \<and> 500000 < size_bytes example_big_text
   \<and> \<not> same_file_guard example_big_text init_preview_state
   \<and> fetches (loadFilePreview (open_on example_big_text) init_preview_state) = []
   \<and> error (loadFilePreview (open_on example_big_text) init_preview_state)
       = Some ''Text file too large for preview (max 500KB)''
   \<and> previewUrl (loadFilePreview (open_on example_big_text) init_preview_state) = None"
proof -
  have b: "500000 < size_bytes example_big_text" by (simp add: example_big_text_def)
  have h: "isTextFile (mime_type example_big_text) \<and> 500000 < size_bytes example_big_text
       \<or> isVideoFile (mime_type example_big_text) \<and> 100000000 < size_bytes example_big_text
       \<or> isPDFFile (mime_type example_big_text) \<and> 50000000 < size_bytes example_big_text"
    using example_kinds(4) b by simp
  have t: "truthy (Some ''secret'')" by (simp add: truthy_def)
  note w = too_large_short_circuits [OF open_fields(1,2) h, of init_preview_state]
  from w init_no_guard [of example_big_text]
  have "fetches (loadFilePreview (open_on example_big_text) init_preview_state) = []"
    and "error (loadFilePreview (open_on example_big_text) init_preview_state)
       = Some ''Text file too large for preview (max 500KB)''"
    and "previewUrl (loadFilePreview (open_on example_big_text) init_preview_state) = None"
    by (simp_all add: open_fields t example_kinds init_preview_fields)
  then show ?thesis
    using b by (simp add: open_fields example_kinds init_no_guard)
qed

text \<open>
  Claim C6 fails as stated. A PDF with an active share token, opened without an auth
  token outside a public context, is not fetched at all; and an image without a share
  token, opened in a public context, is fetched from the per-id download endpoint with no
  Authorization header although a token is present.
\<close>

theorem endpoint_choice_depends_on_context:
  "hasPublicToken example_shared_pdf
   \<and> fetches (loadFilePreview (open_anon example_shared_pdf) init_preview_state) = []
   \<and> error (loadFilePreview (open_anon example_shared_pdf) init_preview_state)
       = Some ''Authentication required for file preview''
   \<and> \<not> hasPublicToken example_image
   \<and> auth_token (open_public example_image) = Some ''secret''
   \<and> map (req_url \<circ> snd) (fetches (loadFilePreview (open_public example_image) init_preview_state))
       = [''http://localhost:8080/api/v1/files/f-img/download'']
   \<and> map (req_headers \<circ> snd) (fetches (loadFilePreview (open_public example_image) init_preview_state))
       = [[]]"
  using load_throws(1,2) [OF open_fields(6,7) init_no_guard example_kinds(7) example_prechecks(3)]
    load_fetches(1) [OF open_fields(11,12) init_no_guard example_kinds(9) example_prechecks(6)]
  by (simp add: init_preview_fields example_kinds open_fields example_requests)

text \<open>
  Claim C6, amended. For an open file of a fetched kind within its size ceiling that is
  not already the current one: with an auth token or in a public context exactly one GET
  is issued, to \<open>/p/{token}\<close> with no Authorization header when the file carries an
  active share token, and otherwise to \<open>/files/{id}/download\<close>, with the bearer token
  unless the context is public, where no header is sent. Without a token outside a
  public context nothing is fetched, share token or not, and the attempt ends in
  ``Authentication required''.
\<close>

theorem endpoint_choice:
  assumes "fileProp props = Some f" and "isOpen props" and "\<not> same_file_guard f s"
    and "fetched_kind (mime_type f)"
    and "isTextFile (mime_type f) \<longrightarrow> size_bytes f \<le> 500000"
    and "isVideoFile (mime_type f) \<longrightarrow> size_bytes f \<le> 100000000"
    and "isPDFFile (mime_type f) \<longrightarrow> size_bytes f \<le> 50000000"
  shows "(truthy (auth_token props) \<or> isPublic props \<longrightarrow>
            fetches (loadFilePreview props s)
              = fetches s @ [(length (signals s), download_request props f)]
          \<and> req_method (download_request props f) = ''GET''
          \<and> (hasPublicToken f \<longrightarrow>
                req_url (download_request props f)
                  = baseUrl props @ ''/p/'' @ share_token (the (share_link f))
              \<and> req_headers (download_request props f) = [])
          \<and> (\<not> hasPublicToken f \<longrightarrow>
                req_url (download_request props f)
                  = baseUrl props @ ''/files/'' @ file_id f @ ''/download''
              \<and> req_headers (download_request props f)
                  = (if isPublic props then []
                     else [(''Authorization'', ''Bearer '' @ the (auth_token props))])))
       \<and> (\<not> truthy (auth_token props) \<and> \<not> isPublic props \<longrightarrow>
            fetches (loadFilePreview props s) = fetches s
          \<and> error (loadFilePreview props s) = Some ''Authentication required for file preview'')"
proof -
  have 1: "truthy (auth_token props) \<or> isPublic props \<longrightarrow>
            fetches (loadFilePreview props s)
              = fetches s @ [(length (signals s), download_request props f)]"
  proof
    assume c: "truthy (auth_token props) \<or> isPublic props"
    from load_fetches(1) [OF assms(1-4) precheck_passes [OF c assms(5-7)]]
    show "fetches (loadFilePreview props s)
              = fetches s @ [(length (signals s), download_request props f)]" .
  qed
  have 2: "req_method (download_request props f) = ''GET''"
    "hasPublicToken f \<longrightarrow>
                req_url (download_request props f)
                  = baseUrl props @ ''/p/'' @ share_token (the (share_link f))
              \<and> req_headers (download_request props f) = []"
    "\<not> hasPublicToken f \<longrightarrow>
                req_url (download_request props f)
                  = baseUrl props @ ''/files/'' @ file_id f @ ''/download''
              \<and> req_headers (download_request props f)
                  = (if isPublic props then []
                     else [(''Authorization'', ''Bearer '' @ the (auth_token props))])"
    by (simp_all add: download_request_def)
  have 3: "\<not> truthy (auth_token props) \<and> \<not> isPublic props \<longrightarrow>
            fetches (loadFilePreview props s) = fetches s
          \<and> error (loadFilePreview props s) = Some ''Authentication required for file preview''"
  proof
    assume "\<not> truthy (auth_token props) \<and> \<not> isPublic props"
    then have p: "precheck props f = Some ''Authentication required for file preview''"
      by (simp add: precheck_auth)
    from load_throws(2,1) [OF assms(1-4) p]
    show "fetches (loadFilePreview props s) = fetches s
          \<and> error (loadFilePreview props s) = Some ''Authentication required for file preview''"
      by (rule conjI)
  qed
  from 1 2 3 show ?thesis by simp
qed

text \<open>
  Claim C6, amended, at the shared PDF of 10 MB and at the image without a share token,
  both opened by a signed-in user.
\<close>

theorem endpoint_choice_witness:
  "fileProp (open_on example_shared_pdf) = Some example_shared_pdf
   \<and> isOpen (open_on example_shared_pdf)
   \<and> \<not> same_file_guard example_shared_pdf init_preview_state
   \<and> fetched_kind (mime_type example_shared_pdf)
   \<and> isPDFFile (mime_type example_shared_pdf) \<and> size_bytes example_shared_pdf \<le> 50000000
   \<and> truthy (auth_token (open_on example_shared_pdf))
   \<and> hasPublicToken example_shared_pdf
   \<and> fetches (loadFilePreview (open_on example_shared_pdf) init_preview_state)
       = [(0, \<lparr>req_method = ''GET'', req_url = ''http://localhost:8080/api/v1/p/tok123'',
               req_headers = [], req_timeout = 0, req_body = NoBody\<rparr>)]
   \<and> \<not> hasPublicToken example_image
   \<and> fetches (loadFilePreview (open_on example_image) init_preview_state)
       = [(0, \<lparr>req_method = ''GET'',
               req_url = ''http://localhost:8080/api/v1/files/f-img/download'',
               req_headers = [(''Authorization'', ''Bearer secret'')],
               req_timeout = 0, req_body = NoBody\<rparr>)]"
proof -
  have t: "truthy (Some ''secret'')" by (simp add: truthy_def)
  have b: "size_bytes example_shared_pdf \<le> 50000000" by (simp add: example_shared_pdf_def)
  have p: "isTextFile (mime_type example_shared_pdf) \<longrightarrow> size_bytes example_shared_pdf \<le> 500000"
    "isVideoFile (mime_type example_shared_pdf) \<longrightarrow> size_bytes example_shared_pdf \<le> 100000000"
    "isPDFFile (mime_type example_shared_pdf) \<longrightarrow> size_bytes example_shared_pdf \<le> 50000000"
    using pdf_not_text_video [OF example_kinds(6)] b by simp_all
  have i: "isTextFile (mime_type example_image) \<longrightarrow> size_bytes example_image \<le> 500000"
    "isVideoFile (mime_type example_image) \<longrightarrow> size_bytes example_image \<le> 100000000"
    "isPDFFile (mime_type example_image) \<longrightarrow> size_bytes example_image \<le> 50000000"
    by (simp_all add: example_kinds)
  note w1 = endpoint_choice [OF open_fields(1,2) init_no_guard example_kinds(7) p]
  note w2 = endpoint_choice [OF open_fields(1,2) init_no_guard example_kinds(9) i]
  from w1 have f1: "fetches (loadFilePreview (open_on example_shared_pdf) init_preview_state)
       = [(0, download_request (open_on example_shared_pdf) example_shared_pdf)]"
    by (simp add: open_fields t init_preview_fields)
  from w2 have f2: "fetches (loadFilePreview (open_on example_image) init_preview_state)
       = [(0, download_request (open_on example_image) example_image)]"
    by (simp add: open_fields t init_preview_fields)
  show ?thesis
    unfolding f1 f2 example_requests
    using b by (simp add: open_fields t init_no_guard example_kinds)
qed



subsection \<open>One successful attempt\<close>

lemma preview_run_append: "preview_run (xs @ ys) s = preview_run ys (preview_run xs s)"
  by (induction xs arbitrary: s) simp_all

lemma load_cycle:
  fixes st :: nat and stx :: string
  assumes "fileProp props = Some f" and "isOpen props" and "\<not> same_file_guard f s"
    and "fetched_kind (mime_type f)" and "precheck props f = None"
  defines "s3 \<equiv> preview_run [Effect props, FetchResolved (length (signals s)) True st stx,
                              BlobResolved (length (signals s))] s"
  shows "currentBlobUrl s3 = Some (created s)"
    and "created s3 = Suc (created s)"
    and "revoked s3 = revoked s @ (case currentBlobUrl s of None \<Rightarrow> [] | Some u \<Rightarrow> [u])"
    and "previewUrlRef s3 = Some (created s)"
    and "previewUrl s3 = Some (created s)"
    and "\<not> loadingRef s3"
    and "\<not> loading s3"
    and "currentFileId s3 = Some (file_id f)"
    and "fetches s3 = fetches s @ [(length (signals s), download_request props f)]"
    and "length (signals s3) = Suc (length (signals s))"
    and "abortController s3 = Some (length (signals s))"
proof -
  define c where "c = length (signals s)"
  define s1 where "s1 = loadFilePreview props s"
  define s2 where "s2 = preview_step (FetchResolved c True st stx) s1"
  note l = load_fetches [OF assms(1-5), folded c_def s1_def]
  have e2: "s2 = set_inv_phase c AwaitBlob s1"
    using l(12,13) by (simp add: s2_def)
  have c1: "c < length (signals s1)" using l(11) by simp
  have p2: "inv_in_phase c AwaitBlob s2" using c1 by (simp add: e2)
  have a2: "\<not> aborted c s2" using l(12) by (simp add: e2)
  have r3: "s3 = preview_step (BlobResolved c) s2"
    unfolding s3_def s2_def s1_def c_def
    by (simp only: preview_run.simps preview_step.simps(1))
  have e3: "s3 = commit_blob c s2"
    using p2 by (simp add: r3)
  note cb = commit_blob_fields [of c s2]
  show "currentBlobUrl s3 = Some (created s)"
    using cb(4) [OF a2] by (simp add: e3 e2 l)
  show "created s3 = Suc (created s)"
    using cb(5) [OF a2] by (simp add: e3 e2 l)
  show "revoked s3 = revoked s @ (case currentBlobUrl s of None \<Rightarrow> [] | Some u \<Rightarrow> [u])"
    using cb(6) [OF a2] by (simp add: e3 e2 l)
  show "previewUrlRef s3 = Some (created s)"
    using cb(7) [OF a2] by (simp add: e3 e2 l)
  show "previewUrl s3 = Some (created s)"
    using cb(8) [OF a2] by (simp add: e3 e2 l)
  show "\<not> loadingRef s3"
    using cb(9) [OF a2] by (simp add: e3)
  show "\<not> loading s3"
    using cb(10) [OF a2] by (simp add: e3)
  show "currentFileId s3 = Some (file_id f)"
    using cb(12) by (simp add: e3 e2 l)
  show "fetches s3 = fetches s @ [(length (signals s), download_request props f)]"
    using cb(11) by (simp add: e3 e2 l c_def)
  show "length (signals s3) = Suc (length (signals s))"
    using cb(14) by (simp add: e3 e2 l c_def)
  show "abortController s3 = Some (length (signals s))"
    using cb(13) by (simp add: e3 e2 l c_def)
qed

lemma image_loaded_facts:
  "currentBlobUrl (preview_run image_loaded init_preview_state) = Some 0"
  "created (preview_run image_loaded init_preview_state) = 1"
  "revoked (preview_run image_loaded init_preview_state) = []"
  "previewUrlRef (preview_run image_loaded init_preview_state) = Some 0"
  "currentFileId (preview_run image_loaded init_preview_state) = Some ''f-img''"
  "fetches (preview_run image_loaded init_preview_state)
     = [(0, download_request (open_on example_image) example_image)]"
  "length (signals (preview_run image_loaded init_preview_state)) = 1"
  using load_cycle(1-4,8-10) [OF open_fields(1,2) init_no_guard example_kinds(9) example_prechecks(5),
      where st = 200 and stx = "''OK''"]
  by (simp_all add: image_loaded_def init_preview_fields) (simp add: example_image_def)

lemma commit_blob_error [simp]: "error (commit_blob c s) = error s"
  by (simp add: commit_blob_def Let_def revokeObjectURL_def split: option.splits)











subsection \<open>The object URLs\<close>

lemma url_inv_same:
  assumes "url_inv s" and "currentBlobUrl s' = currentBlobUrl s" and "created s' = created s"
    and "revoked s' = revoked s"
  shows "url_inv s'"
  using assms by (simp add: url_inv_def)

lemma url_inv_drop_current:
  assumes "url_inv s" and "currentBlobUrl s' = None" and "created s' = created s"
    and "revoked s' = revoked s @ (case currentBlobUrl s of None \<Rightarrow> [] | Some u \<Rightarrow> [u])"
  shows "url_inv s'"
  using assms by (cases "currentBlobUrl s") (auto simp: url_inv_def)

lemma url_inv_replace:
  assumes "url_inv s" and "currentBlobUrl s' = Some (created s)" and "created s' = Suc (created s)"
    and "revoked s' = revoked s @ (case currentBlobUrl s of None \<Rightarrow> [] | Some u \<Rightarrow> [u])"
  shows "url_inv s'"
  using assms by (cases "currentBlobUrl s") (auto simp: url_inv_def less_Suc_eq)

lemma url_inv_init: "url_inv init_preview_state"
  by (simp add: url_inv_def init_preview_state_def)

lemma load_url_fields:
  assumes "fileProp props = Some f" and "isOpen props"
  shows "currentBlobUrl (loadFilePreview props s) = currentBlobUrl s"
    and "created (loadFilePreview props s) = created s"
    and "revoked (loadFilePreview props s) = revoked s"
proof -
  have "currentBlobUrl (loadFilePreview props s) = currentBlobUrl s
      \<and> created (loadFilePreview props s) = created s
      \<and> revoked (loadFilePreview props s) = revoked s"
  proof (cases "same_file_guard f s")
    case True
    then show ?thesis by (simp add: load_guarded [OF assms])
  next
    case False
    show ?thesis
      by (simp add: load_unfold [OF assms False] split: option.splits)
  qed
  then show "currentBlobUrl (loadFilePreview props s) = currentBlobUrl s"
    and "created (loadFilePreview props s) = created s"
    and "revoked (loadFilePreview props s) = revoked s"
    by simp_all
qed

lemma url_inv_load: "url_inv s \<Longrightarrow> url_inv (loadFilePreview props s)"
proof (cases "fileProp props = None \<or> \<not> isOpen props")
  case True
  assume i: "url_inv s"
  show ?thesis
    unfolding load_closed [OF True] by (rule url_inv_drop_current [OF i]) simp_all
next
  case False
  assume i: "url_inv s"
  from False obtain f where f: "fileProp props = Some f" and o: "isOpen props" by auto
  show ?thesis
    by (rule url_inv_same [OF i]) (simp_all add: load_url_fields [OF f o])
qed

lemma url_inv_cleanup: "url_inv s \<Longrightarrow> url_inv (cleanup s)"
  by (erule url_inv_drop_current) simp_all

lemma url_inv_commit: "url_inv s \<Longrightarrow> url_inv (commit_blob c s)"
proof (cases "aborted c s")
  case True
  assume "url_inv s"
  then show ?thesis by (rule url_inv_same) (simp_all add: commit_blob_fields True)
next
  case False
  assume "url_inv s"
  then show ?thesis by (rule url_inv_replace) (simp_all add: commit_blob_fields False)
qed

lemma url_inv_step: "url_inv s \<Longrightarrow> url_inv (preview_step e s)"
proof (cases e)
  case (Effect props)
  assume "url_inv s"
  then show ?thesis by (simp add: Effect url_inv_load)
next
  case Cleanup
  assume "url_inv s"
  then show ?thesis by (simp add: Cleanup url_inv_cleanup)
next
  case (FetchResolved c ok st stx)
  assume i: "url_inv s"
  show ?thesis by (rule url_inv_same [OF i]) (simp_all add: FetchResolved)
next
  case (FetchRejected c msg)
  assume i: "url_inv s"
  show ?thesis by (rule url_inv_same [OF i]) (simp_all add: FetchRejected)
next
  case (TimeoutFired c)
  assume i: "url_inv s"
  show ?thesis by (rule url_inv_same [OF i]) (simp_all add: TimeoutFired)
next
  case (BlobResolved c)
  assume "url_inv s"
  then show ?thesis by (simp add: BlobResolved url_inv_commit)
next
  case (BlobRejected c msg)
  assume i: "url_inv s"
  show ?thesis by (rule url_inv_same [OF i]) (simp_all add: BlobRejected)
qed

lemma url_inv_run: "url_inv s \<Longrightarrow> url_inv (preview_run es s)"
  by (induction es arbitrary: s) (simp_all add: url_inv_step)

lemma filter_eq_upt: "a < n \<Longrightarrow> filter (\<lambda>u. u = a) [0..<n] = [a]"
  by (induction n) (auto simp: less_Suc_eq)

lemma filter_none_upt: "(\<forall>u < n. \<not> P u) \<Longrightarrow> filter P [0..<n] = []"
  by (simp add: filter_empty_conv)

lemma live_urls_current:
  assumes "url_inv s"
  shows "live_urls s = (case currentBlobUrl s of None \<Rightarrow> [] | Some u \<Rightarrow> [u])"
proof (cases "currentBlobUrl s")
  case None
  have "\<forall>u < created s. \<not> u \<notin> set (revoked s)"
    using assms None by (auto simp: url_inv_def)
  then show ?thesis
    by (simp add: live_urls_def None filter_none_upt)
next
  case (Some a)
  have a: "a < created s" using assms Some by (simp add: url_inv_def)
  have "filter (\<lambda>u. u \<notin> set (revoked s)) [0..<created s] = filter (\<lambda>u. u = a) [0..<created s]"
    using assms Some by (intro filter_cong) (auto simp: url_inv_def)
  then show ?thesis
    by (simp add: live_urls_def Some filter_eq_upt [OF a])
qed

lemma count_list_distinct:
  "distinct xs \<Longrightarrow> count_list xs x = (if x \<in> set xs then 1 else 0)"
  by (induction xs) auto

lemma revoked_at_most_once: "url_inv s \<Longrightarrow> count_list (revoked s) u \<le> 1"
  by (simp add: url_inv_def count_list_distinct)

lemma revoked_once:
  "url_inv s \<Longrightarrow> u < created s \<Longrightarrow> currentBlobUrl s \<noteq> Some u \<Longrightarrow> count_list (revoked s) u = 1"
  by (auto simp: url_inv_def count_list_distinct)

lemma all_revoked_when_none:
  assumes "url_inv s" and "currentBlobUrl s = None"
  shows "live_urls s = []" and "\<forall>u < created s. count_list (revoked s) u = 1"
  using assms live_urls_current [OF assms(1)] revoked_once [OF assms(1)] by simp_all



lemma supersede_after_cleanup:
  fixes st :: nat and stx :: string
  assumes "url_inv s" and "currentBlobUrl s = Some a"
    and "fileProp props = Some f" and "isOpen props"
    and "currentFileId s \<noteq> Some (file_id f)"
    and "fetched_kind (mime_type f)" and "precheck props f = None"
  defines "s' \<equiv> preview_run [Cleanup, Effect props, FetchResolved (length (signals s)) True st stx,
                              BlobResolved (length (signals s))] s"
  shows "revoked s' = revoked s @ [a]" and "currentBlobUrl s' = Some (created s)"
    and "created s' = Suc (created s)"
proof -
  have g: "\<not> same_file_guard f (cleanup s)"
    using assms(5) by (simp add: same_file_guard_def)
  have e: "s' = preview_run [Effect props, FetchResolved (length (signals (cleanup s))) True st stx,
                              BlobResolved (length (signals (cleanup s)))] (cleanup s)"
    unfolding s'_def by (simp only: preview_run.simps preview_step.simps(2) cleanup_fields)
  note cy = load_cycle [OF assms(3,4) g assms(6,7), where st = st and stx = stx, folded e]
  show "revoked s' = revoked s @ [a]" using cy(3) by (simp add: assms(2))
  show "currentBlobUrl s' = Some (created s)" using cy(1) by simp
  show "created s' = Suc (created s)" using cy(2) by simp
qed

lemma supersede_directly:
  fixes st :: nat and stx :: string
  assumes "currentBlobUrl s = Some a"
    and "fileProp props = Some f" and "isOpen props"
    and "currentFileId s \<noteq> Some (file_id f)"
    and "fetched_kind (mime_type f)" and "precheck props f = None"
  defines "s' \<equiv> preview_run [Effect props, FetchResolved (length (signals s)) True st stx,
                              BlobResolved (length (signals s))] s"
  shows "revoked s' = revoked s @ [a]" and "currentBlobUrl s' = Some (created s)"
    and "created s' = Suc (created s)"
proof -
  have g: "\<not> same_file_guard f s"
    using assms(4) by (simp add: same_file_guard_def)
  note cy = load_cycle [OF assms(2,3) g assms(5,6), where st = st and stx = stx, folded s'_def]
  show "revoked s' = revoked s @ [a]" using cy(3) by (simp add: assms(1))
  show "currentBlobUrl s' = Some (created s)" by (rule cy(1))
  show "created s' = Suc (created s)" by (rule cy(2))
qed

lemma superseded_summary:
  assumes "url_inv s" and "currentBlobUrl s = Some a" and "url_inv s'"
    and "revoked s' = revoked s @ [a]" and "currentBlobUrl s' = Some (created s)"
  shows "count_list (revoked s') a = 1 \<and> live_urls s' = [created s] \<and> a \<noteq> created s"
proof -
  have a: "a < created s" "a \<notin> set (revoked s)"
    using assms(1,2) by (simp_all add: url_inv_def)
  have "count_list (revoked s') a = 1" using a(2) by (simp add: assms(4))
  moreover have "live_urls s' = [created s]"
    by (simp add: live_urls_current [OF assms(3)] assms(5))
  ultimately show ?thesis using a(1) by simp
qed

text \<open>
  The count of revocations. In every state the preview modal can reach, no object URL has
  been revoked twice, every created URL other than the one held in \<open>currentBlobUrl\<close> has been revoked
  exactly once, and at most that one URL is live. Right after the effect's cleanup (which
  React runs when the file changes, when the modal closes and when it unmounts) and right
  after a call with no file or a closed modal, no URL is live and each created URL has been
  revoked exactly once. When file A's URL is live and a different file B is then resolved
  and loaded, with or without the cleanup in between, A's URL has been revoked exactly
  once and the only live URL is the new one, B's.
\<close>

lemma revocations_counted:
  assumes "s = preview_run es init_preview_state"
  shows "(\<forall>u. count_list (revoked s) u \<le> 1)
     \<and> (\<forall>u < created s. currentBlobUrl s \<noteq> Some u \<longrightarrow> count_list (revoked s) u = 1)
     \<and> live_urls s = (case currentBlobUrl s of None \<Rightarrow> [] | Some u \<Rightarrow> [u])
     \<and> live_urls (preview_step Cleanup s) = []
     \<and> (\<forall>u < created s. count_list (revoked (preview_step Cleanup s)) u = 1)
     \<and> (fileProp shut = None \<or> \<not> isOpen shut \<longrightarrow>
           live_urls (preview_step (Effect shut) s) = []
         \<and> (\<forall>u < created s. count_list (revoked (preview_step (Effect shut) s)) u = 1))
     \<and> (currentBlobUrl s = Some a \<and> fileProp props = Some f \<and> isOpen props
         \<and> currentFileId s \<noteq> Some (file_id f)
         \<and> fetched_kind (mime_type f) \<and> precheck props f = None \<longrightarrow>
           (let s' = preview_run [Cleanup, Effect props,
                                  FetchResolved (length (signals s)) True st stx,
                                  BlobResolved (length (signals s))] s
            in revoked s' = revoked s @ [a] \<and> count_list (revoked s') a = 1
             \<and> live_urls s' = [created s] \<and> a \<noteq> created s)
         \<and> (let s' = preview_run [Effect props,
                                  FetchResolved (length (signals s)) True st stx,
                                  BlobResolved (length (signals s))] s
            in revoked s' = revoked s @ [a] \<and> count_list (revoked s') a = 1
             \<and> live_urls s' = [created s] \<and> a \<noteq> created s))"
proof -
  have i: "url_inv s"
    unfolding assms by (rule url_inv_run [OF url_inv_init])
  have 1: "\<forall>u. count_list (revoked s) u \<le> 1"
    using revoked_at_most_once [OF i] by simp
  have 2: "\<forall>u < created s. currentBlobUrl s \<noteq> Some u \<longrightarrow> count_list (revoked s) u = 1"
    using revoked_once [OF i] by simp
  have 3: "live_urls s = (case currentBlobUrl s of None \<Rightarrow> [] | Some u \<Rightarrow> [u])"
    by (rule live_urls_current [OF i])
  have ic: "url_inv (cleanup s)" by (rule url_inv_cleanup [OF i])
  have 4: "live_urls (preview_step Cleanup s) = []"
    "\<forall>u < created s. count_list (revoked (preview_step Cleanup s)) u = 1"
    using all_revoked_when_none [OF ic] by simp_all
  have 5: "fileProp shut = None \<or> \<not> isOpen shut \<longrightarrow>
           live_urls (preview_step (Effect shut) s) = []
         \<and> (\<forall>u < created s. count_list (revoked (preview_step (Effect shut) s)) u = 1)"
  proof
    assume c: "fileProp shut = None \<or> \<not> isOpen shut"
    have e: "preview_step (Effect shut) s = reset s"
      by (simp add: load_closed [OF c])
    have ir: "url_inv (reset s)"
      by (rule url_inv_drop_current [OF i]) simp_all
    show "live_urls (preview_step (Effect shut) s) = []
         \<and> (\<forall>u < created s. count_list (revoked (preview_step (Effect shut) s)) u = 1)"
      unfolding e using all_revoked_when_none [OF ir] by simp
  qed
  have 6: "currentBlobUrl s = Some a \<and> fileProp props = Some f \<and> isOpen props
         \<and> currentFileId s \<noteq> Some (file_id f)
         \<and> fetched_kind (mime_type f) \<and> precheck props f = None \<longrightarrow>
           (let s' = preview_run [Cleanup, Effect props,
                                  FetchResolved (length (signals s)) True st stx,
                                  BlobResolved (length (signals s))] s
            in revoked s' = revoked s @ [a] \<and> count_list (revoked s') a = 1
             \<and> live_urls s' = [created s] \<and> a \<noteq> created s)
         \<and> (let s' = preview_run [Effect props,
                                  FetchResolved (length (signals s)) True st stx,
                                  BlobResolved (length (signals s))] s
            in revoked s' = revoked s @ [a] \<and> count_list (revoked s') a = 1
             \<and> live_urls s' = [created s] \<and> a \<noteq> created s)"
  proof
    assume h: "currentBlobUrl s = Some a \<and> fileProp props = Some f \<and> isOpen props
         \<and> currentFileId s \<noteq> Some (file_id f)
         \<and> fetched_kind (mime_type f) \<and> precheck props f = None"
    then have a: "currentBlobUrl s = Some a" and f: "fileProp props = Some f"
      and o: "isOpen props" and d: "currentFileId s \<noteq> Some (file_id f)"
      and k: "fetched_kind (mime_type f)" and p: "precheck props f = None"
      by simp_all
    define s1 where "s1 = preview_run [Cleanup, Effect props,
                                  FetchResolved (length (signals s)) True st stx,
                                  BlobResolved (length (signals s))] s"
    define s2 where "s2 = preview_run [Effect props,
                                  FetchResolved (length (signals s)) True st stx,
                                  BlobResolved (length (signals s))] s"
    have i1: "url_inv s1" unfolding s1_def by (rule url_inv_run [OF i])
    have i2: "url_inv s2" unfolding s2_def by (rule url_inv_run [OF i])
    note c1 = supersede_after_cleanup [OF i a f o d k p, where st = st and stx = stx, folded s1_def]
    note c2 = supersede_directly [OF a f o d k p, where st = st and stx = stx, folded s2_def]
    have r1: "revoked s1 = revoked s @ [a] \<and> count_list (revoked s1) a = 1
             \<and> live_urls s1 = [created s] \<and> a \<noteq> created s"
      using superseded_summary [OF i a i1 c1(1,2)] c1(1) by simp
    have r2: "revoked s2 = revoked s @ [a] \<and> count_list (revoked s2) a = 1
             \<and> live_urls s2 = [created s] \<and> a \<noteq> created s"
      using superseded_summary [OF i a i2 c2(1,2)] c2(1) by simp
    show "(let s' = preview_run [Cleanup, Effect props,
                                  FetchResolved (length (signals s)) True st stx,
                                  BlobResolved (length (signals s))] s
            in revoked s' = revoked s @ [a] \<and> count_list (revoked s') a = 1
             \<and> live_urls s' = [created s] \<and> a \<noteq> created s)
         \<and> (let s' = preview_run [Effect props,
                                  FetchResolved (length (signals s)) True st stx,
                                  BlobResolved (length (signals s))] s
            in revoked s' = revoked s @ [a] \<and> count_list (revoked s') a = 1
             \<and> live_urls s' = [created s] \<and> a \<noteq> created s)"
      unfolding Let_def s1_def [symmetric] s2_def [symmetric]
      using r1 r2 by (rule conjI)
  qed
  show ?thesis
    by (intro conjI 1 2 3 4 5 6)
qed

text \<open>
  The count when the image is loaded, then the shared PDF is opened and loaded, then the
  modal unmounts: URL 0 is revoked once and URL 1 is the live one, until the unmount
  revokes it.
\<close>

lemma revocations_counted_example:
  "currentBlobUrl (preview_run image_loaded init_preview_state) = Some 0
   \<and> fileProp (open_on example_shared_pdf) = Some example_shared_pdf
   \<and> isOpen (open_on example_shared_pdf)
   \<and> currentFileId (preview_run image_loaded init_preview_state) \<noteq> Some (file_id example_shared_pdf)
   \<and> fetched_kind (mime_type example_shared_pdf)
   \<and> precheck (open_on example_shared_pdf) example_shared_pdf = None
   \<and> created (preview_run image_loaded init_preview_state) = 1
   \<and> revoked (preview_run (image_loaded @ pdf_after_image) init_preview_state) = [0]
   \<and> count_list (revoked (preview_run (image_loaded @ pdf_after_image) init_preview_state)) 0 = 1
   \<and> live_urls (preview_run (image_loaded @ pdf_after_image) init_preview_state) = [1]
   \<and> live_urls (preview_run (image_loaded @ pdf_after_image @ [Cleanup]) init_preview_state) = []"
proof -
  define s where "s = preview_run image_loaded init_preview_state"
  note fs = image_loaded_facts [folded s_def]
  have d: "currentFileId s \<noteq> Some (file_id example_shared_pdf)"
    by (simp add: fs example_shared_pdf_def)
  have e: "preview_run (image_loaded @ pdf_after_image) init_preview_state
      = preview_run [Cleanup, Effect (open_on example_shared_pdf),
                     FetchResolved (length (signals s)) True 200 ''OK'',
                     BlobResolved (length (signals s))] s"
    by (simp only: preview_run_append s_def [symmetric] pdf_after_image_def fs(7))
  note w = revocations_counted [OF s_def, where a = 0
      and props = "open_on example_shared_pdf" and f = example_shared_pdf
      and st = 200 and stx = "''OK''"]
  note w6 = w [THEN conjunct2, THEN conjunct2, THEN conjunct2, THEN conjunct2, THEN conjunct2,
      THEN conjunct2, THEN mp,
      OF conjI [OF fs(1) conjI [OF open_fields(1) conjI [OF open_fields(2)
        conjI [OF d conjI [OF example_kinds(7) example_prechecks(4)]]]]],
      THEN conjunct1, unfolded Let_def, folded e]
  define t where "t = preview_run (image_loaded @ pdf_after_image) init_preview_state"
  note w6' = w6 [folded t_def]
  have r: "revoked t = [0]" "count_list (revoked t) 0 = 1" "live_urls t = [1]"
    using w6' by (simp_all add: fs)
  note v = revocations_counted [OF t_def, THEN conjunct2, THEN conjunct2,
      THEN conjunct2, THEN conjunct1]
  have u: "preview_run (image_loaded @ pdf_after_image @ [Cleanup]) init_preview_state
      = preview_step Cleanup t"
    by (simp only: t_def append_assoc [symmetric] preview_run_append [of _ "[Cleanup]"]
        preview_run.simps)
  have l: "live_urls (preview_run (image_loaded @ pdf_after_image @ [Cleanup]) init_preview_state) = []"
    unfolding u by (rule v)
  show ?thesis
    unfolding s_def [symmetric] t_def [symmetric]
    using l [folded t_def]
    by (intro conjI fs(1) open_fields(1,2) d example_kinds(7) example_prechecks(4) fs(2) r)
qed



section \<open>Upload progress: the arithmetic\<close>

subsection \<open>Rounding to an integer\<close>

lemma round_half_even_cases:
  "(round_half_even r = \<lfloor>r\<rfloor> \<and> r - of_int \<lfloor>r\<rfloor> \<le> 1 / 2)
   \<or> (round_half_even r = \<lfloor>r\<rfloor> + 1 \<and> 1 / 2 \<le> r - of_int \<lfloor>r\<rfloor>)"
  by (auto simp: round_half_even_def Let_def)

lemma round_half_even_near:
  "\<bar>of_int (round_half_even r) - r\<bar> \<le> 1 / 2"
proof -
  have "of_int \<lfloor>r\<rfloor> \<le> r" "r < of_int \<lfloor>r\<rfloor> + 1" by linarith+
  then show ?thesis using round_half_even_cases [of r] by auto
qed

lemma round_half_even_of_int [simp]: "round_half_even (of_int n) = n"
  by (simp add: round_half_even_def)

lemma round_half_even_mono:
  assumes "r \<le> r'"
  shows "round_half_even r \<le> round_half_even r'"
proof (cases "\<lfloor>r\<rfloor> = \<lfloor>r'\<rfloor>")
  case True
  with assms show ?thesis
    by (auto simp: round_half_even_def Let_def)
next
  case False
  with assms have "\<lfloor>r\<rfloor> < \<lfloor>r'\<rfloor>"
    using floor_mono [OF assms] by simp
  then show ?thesis
    using round_half_even_cases [of r] round_half_even_cases [of r'] by auto
qed

subsection \<open>Powers of two\<close>

lemma pow2_add: "(2::rat) powi (a + b) = 2 powi a * 2 powi b"
  by (simp add: power_int_add)

lemma pow2_mono: "a \<le> b \<Longrightarrow> (2::rat) powi a \<le> 2 powi b"
  by (rule power_int_increasing) simp_all

lemma pow2_less_cancel:
  assumes "(2::rat) powi a < 2 powi b"
  shows "a < b"
proof (rule ccontr)
  assume "\<not> a < b"
  then have "b \<le> a" by simp
  from pow2_mono [OF this] assms show False by simp
qed

lemma bitlen_pow2_bounds:
  assumes "0 < p"
  shows "(2::rat) powi (bitlen p - 1) \<le> of_int p" and "of_int p < (2::rat) powi bitlen p"
proof -
  have b: "1 \<le> bitlen p" using assms by (auto simp: bitlen_alt_def)
  from bitlen_bounds [OF assms]
  have l: "2 ^ nat (bitlen p - 1) \<le> p" and u: "p < 2 ^ nat (bitlen p)" by simp_all
  have "(of_int (2 ^ nat (bitlen p - 1)) :: rat) \<le> of_int p"
    using l by (simp only: of_int_le_iff)
  then show "(2::rat) powi (bitlen p - 1) \<le> of_int p"
    using b by (simp add: power_int_nonneg_exp)
  have "(of_int p :: rat) < of_int (2 ^ nat (bitlen p))"
    using u by (simp only: of_int_less_iff)
  then show "of_int p < (2::rat) powi bitlen p"
    using b by (simp add: power_int_nonneg_exp)
qed

subsection \<open>The binade of a positive number\<close>

lemma binade_spec:
  assumes "0 < x"
  shows "2 powi binade x \<le> x" and "x < 2 powi (binade x + 1)"
proof -
  obtain p q where pq: "quotient_of x = (p, q)" by (cases "quotient_of x")
  have q: "0 < q" by (rule quotient_of_denom_pos [OF pq])
  have x: "x = of_int p / of_int q" by (rule quotient_of_div [OF pq])
  have p: "0 < p" using assms q by (simp add: x zero_less_divide_iff)
  define k where "k = bitlen p - bitlen q"
  define Q :: rat where "Q = of_int q"
  define P :: rat where "P = of_int p"
  have Q: "0 < Q" and P: "0 < P" using q p by (simp_all add: Q_def P_def)
  note bp = bitlen_pow2_bounds [OF p, folded P_def]
  note bq = bitlen_pow2_bounds [OF q, folded Q_def]
  have "P < 2 powi (k + 1) * 2 powi (bitlen q - 1)"
    using bp(2) by (simp add: k_def flip: pow2_add)
  also have "\<dots> \<le> 2 powi (k + 1) * Q"
    using bq(1) by (simp add: mult_left_mono)
  finally have up: "x < 2 powi (k + 1)"
    using Q by (simp add: x P_def [symmetric] Q_def [symmetric] pos_divide_less_eq)
  have "2 powi (k - 1) * Q < 2 powi (k - 1) * 2 powi bitlen q"
    using bq(2) by (simp add: mult_strict_left_mono)
  also have "\<dots> = 2 powi (bitlen p - 1)"
    by (simp add: k_def flip: pow2_add)
  also have "\<dots> \<le> P" by (rule bp(1))
  finally have lo: "2 powi (k - 1) < x"
    using Q by (simp add: x P_def [symmetric] Q_def [symmetric] pos_less_divide_eq)
  have e: "binade x = (if 2 powi k \<le> x then k else k - 1)"
    by (simp add: binade_def pq k_def Let_def)
  show "2 powi binade x \<le> x"
    using lo by (simp add: e)
  show "x < 2 powi (binade x + 1)"
    using up by (simp add: e)
qed

subsection \<open>Rounding to a double\<close>

lemma fl_zero [simp]: "fl 0 = 0"
  by (simp add: fl_def)

lemma fl_pos_eq:
  "0 < x \<Longrightarrow>
   fl x = of_int (round_half_even (x * 2 powi (52 - binade x))) * 2 powi (binade x - 52)"
  by (simp add: fl_def Let_def)

lemma significand_bounds:
  assumes "0 < x"
  shows "2 ^ 52 \<le> x * 2 powi (52 - binade x)" and "x * 2 powi (52 - binade x) < 2 ^ 53"
proof -
  have "2 powi binade x * 2 powi (52 - binade x) \<le> x * 2 powi (52 - binade x)"
    using binade_spec(1) [OF assms] by (simp add: mult_right_mono)
  then show "2 ^ 52 \<le> x * 2 powi (52 - binade x)"
    by (simp flip: pow2_add)
  have "x * 2 powi (52 - binade x) < 2 powi (binade x + 1) * 2 powi (52 - binade x)"
    using binade_spec(2) [OF assms] by (simp add: mult_strict_right_mono)
  then show "x * 2 powi (52 - binade x) < 2 ^ 53"
    by (simp flip: pow2_add)
qed

lemma rounded_significand_bounds:
  assumes "0 < x"
  shows "2 ^ 52 \<le> round_half_even (x * 2 powi (52 - binade x))"
    and "round_half_even (x * 2 powi (52 - binade x)) \<le> 2 ^ 53"
proof -
  have "round_half_even (of_int (2 ^ 52)) \<le> round_half_even (x * 2 powi (52 - binade x))"
    using significand_bounds(1) [OF assms] by (intro round_half_even_mono) simp
  then show "2 ^ 52 \<le> round_half_even (x * 2 powi (52 - binade x))"
    by (simp only: round_half_even_of_int)
  have "round_half_even (x * 2 powi (52 - binade x)) \<le> round_half_even (of_int (2 ^ 53))"
    using significand_bounds(2) [OF assms] by (intro round_half_even_mono) simp
  then show "round_half_even (x * 2 powi (52 - binade x)) \<le> 2 ^ 53"
    by (simp only: round_half_even_of_int)
qed

lemma fl_pos_bounds:
  assumes "0 < x"
  shows "2 powi binade x \<le> fl x" and "fl x \<le> 2 powi (binade x + 1)"
proof -
  define m where "m = round_half_even (x * 2 powi (52 - binade x))"
  have f: "fl x = of_int m * 2 powi (binade x - 52)"
    by (simp add: fl_pos_eq [OF assms] m_def)
  note r = rounded_significand_bounds [OF assms, folded m_def]
  have "(of_int (2 ^ 52) :: rat) \<le> of_int m" "(of_int m :: rat) \<le> of_int (2 ^ 53)"
    using r by (simp_all only: of_int_le_iff)
  then have m: "(2 ^ 52 :: rat) \<le> of_int m" "(of_int m :: rat) \<le> 2 ^ 53"
    by simp_all
  have "2 powi binade x = 2 ^ 52 * (2::rat) powi (binade x - 52)"
    using pow2_add [of 52 "binade x - 52"] by simp
  also have "\<dots> \<le> of_int m * 2 powi (binade x - 52)"
    using m(1) by (intro mult_right_mono) simp_all
  finally show "2 powi binade x \<le> fl x" by (simp add: f)
  have "of_int m * (2::rat) powi (binade x - 52) \<le> 2 ^ 53 * 2 powi (binade x - 52)"
    using m(2) by (intro mult_right_mono) simp_all
  also have "\<dots> = 2 powi (binade x + 1)"
  proof -
    have a: "(2::rat) powi 53 = 2 ^ 53" by simp
    have "(2::rat) powi (binade x + 1) = 2 powi (53 + (binade x - 52))"
      by (rule arg_cong [where f = "\<lambda>n. 2 powi n"]) simp
    also have "\<dots> = 2 powi 53 * 2 powi (binade x - 52)" by (rule pow2_add)
    finally show ?thesis by (simp only: a)
  qed
  finally show "fl x \<le> 2 powi (binade x + 1)" by (simp add: f)
qed

lemma fl_pos:
  assumes "0 < x"
  shows "0 < fl x"
proof -
  have "(0::rat) < 2 powi binade x" by simp
  also have "\<dots> \<le> fl x" by (rule fl_pos_bounds(1) [OF assms])
  finally show ?thesis .
qed

lemma fl_mono_pos:
  assumes "0 < x" and "x \<le> y"
  shows "fl x \<le> fl y"
proof -
  have y: "0 < y" using assms by simp
  have "2 powi binade x \<le> x" by (rule binade_spec(1) [OF assms(1)])
  also note assms(2)
  also have "y < 2 powi (binade y + 1)" by (rule binade_spec(2) [OF y])
  finally have "binade x < binade y + 1" by (rule pow2_less_cancel)
  then consider "binade x = binade y" | "binade x + 1 \<le> binade y" by linarith
  then show ?thesis
  proof cases
    case 1
    have "x * 2 powi (52 - binade y) \<le> y * 2 powi (52 - binade y)"
      using assms(2) by (intro mult_right_mono) simp_all
    then have "round_half_even (x * 2 powi (52 - binade y))
        \<le> round_half_even (y * 2 powi (52 - binade y))"
      by (rule round_half_even_mono)
    then have "(of_int (round_half_even (x * 2 powi (52 - binade y))) :: rat)
        \<le> of_int (round_half_even (y * 2 powi (52 - binade y)))"
      by (simp only: of_int_le_iff)
    then show ?thesis
      by (simp add: fl_pos_eq [OF assms(1)] fl_pos_eq [OF y] 1 mult_right_mono)
  next
    case 2
    have "fl x \<le> 2 powi (binade x + 1)" by (rule fl_pos_bounds(2) [OF assms(1)])
    also have "\<dots> \<le> 2 powi binade y" by (rule pow2_mono [OF 2])
    also have "\<dots> \<le> fl y" by (rule fl_pos_bounds(1) [OF y])
    finally show ?thesis .
  qed
qed

lemma fl_mono:
  assumes "0 \<le> x" and "x \<le> y"
  shows "fl x \<le> fl y"
proof (cases "x = 0")
  case True
  show ?thesis
  proof (cases "y = 0")
    case False
    with assms True have "0 < y" by simp
    from fl_pos [OF this] True show ?thesis by simp
  qed (simp add: True)
next
  case False
  with assms have "0 < x" by simp
  then show ?thesis using assms(2) by (rule fl_mono_pos)
qed

lemma fl_nonneg: "0 \<le> x \<Longrightarrow> 0 \<le> fl x"
  using fl_mono [of 0 x] by simp

lemma fl_one [simp]: "fl 1 = 1"
  by code_simp

lemma fl_hundred [simp]: "fl 100 = 100"
  by code_simp

subsection \<open>The percentage\<close>

lemma Math_round_mono: "x \<le> y \<Longrightarrow> Math_round x \<le> Math_round y"
  by (simp add: Math_round_def floor_mono)

lemma Math_round_of_int [simp]: "Math_round (of_int n) = n"
  by (simp add: Math_round_def) linarith

lemma double_of_count:
  assumes "l \<le> t" and "0 < t"
  shows "0 \<le> fl (of_nat l)" and "fl (of_nat l) \<le> fl (of_nat t)" and "0 < fl (of_nat t)"
proof -
  show "0 \<le> fl (of_nat l)" by (rule fl_nonneg) simp
  show "fl (of_nat l) \<le> fl (of_nat t)" using assms(1) by (intro fl_mono) simp_all
  show "0 < fl (of_nat t)" using assms(2) by (intro fl_pos) simp
qed

lemma scaled_quotient_range:
  assumes "l \<le> t" and "0 < t"
  shows "0 \<le> fl (fl (fl (of_nat l) / fl (of_nat t)) * 100)"
    and "fl (fl (fl (of_nat l) / fl (of_nat t)) * 100) \<le> 100"
proof -
  note d = double_of_count [OF assms]
  define q where "q = fl (of_nat l) / fl (of_nat t)"
  have q: "0 \<le> q" "q \<le> 1" using d by (simp_all add: q_def)
  have f: "0 \<le> fl q" "fl q \<le> 1"
    using fl_nonneg [OF q(1)] fl_mono [OF q] by simp_all
  have r: "0 \<le> fl q * 100" "fl q * 100 \<le> 100" using f by simp_all
  show "0 \<le> fl (fl (fl (of_nat l) / fl (of_nat t)) * 100)"
    using fl_nonneg [OF r(1)] by (simp add: q_def)
  show "fl (fl (fl (of_nat l) / fl (of_nat t)) * 100) \<le> 100"
    using fl_mono [OF r] by (simp add: q_def)
qed

lemma percent_range:
  assumes "l \<le> t" and "0 < t"
  shows "0 \<le> percent l t" and "percent l t \<le> 100"
proof -
  note s = scaled_quotient_range [OF assms]
  have "Math_round (of_int 0) \<le> percent l t"
    unfolding percent_def using s(1) by (intro Math_round_mono) simp
  then show "0 \<le> percent l t" by (simp only: Math_round_of_int)
  have "percent l t \<le> Math_round (of_int 100)"
    unfolding percent_def using s(2) by (intro Math_round_mono) simp
  then show "percent l t \<le> 100" by (simp only: Math_round_of_int)
qed

lemma percent_mono:
  assumes "l \<le> l'" and "0 < t"
  shows "percent l t \<le> percent l' t"
proof -
  have b: "0 < fl (of_nat t)" using assms(2) by (intro fl_pos) simp
  have a: "0 \<le> fl (of_nat l)" by (rule fl_nonneg) simp
  have "fl (of_nat l) \<le> fl (of_nat l')" using assms(1) by (intro fl_mono) simp_all
  then have q: "fl (of_nat l) / fl (of_nat t) \<le> fl (of_nat l') / fl (of_nat t)"
    using b by (simp add: divide_right_mono)
  have q0: "0 \<le> fl (of_nat l) / fl (of_nat t)" using a b by simp
  have f: "fl (fl (of_nat l) / fl (of_nat t)) \<le> fl (fl (of_nat l') / fl (of_nat t))"
    by (rule fl_mono [OF q0 q])
  have f0: "0 \<le> fl (fl (of_nat l) / fl (of_nat t)) * 100"
    using fl_nonneg [OF q0] by simp
  have "fl (fl (fl (of_nat l) / fl (of_nat t)) * 100)
      \<le> fl (fl (fl (of_nat l') / fl (of_nat t)) * 100)"
    using f by (intro fl_mono [OF f0]) simp
  then show ?thesis
    unfolding percent_def by (rule Math_round_mono)
qed

lemma percent_full:
  assumes "0 < t"
  shows "percent t t = 100"
proof -
  have "0 < fl (of_nat t)" using assms by (intro fl_pos) simp
  then have "fl (of_nat t) / fl (of_nat t) = 1" by simp
  then have "percent t t = Math_round (of_int 100)"
    by (simp add: percent_def)
  then show ?thesis by (simp only: Math_round_of_int)
qed

lemma progress_of_percent: "0 < t \<Longrightarrow> progress_of l t = Num (percent l t)"
  by (simp add: progress_of_def)

lemma example_percent_23: "percent 23 40 = 57"
  by code_simp

lemma exact_round_23_40: "Math_round (100 * 23 / 40) = 58"
  by code_simp

lemma example_percent_10: "percent 10 40 = 25"
  by code_simp

lemma example_percent_40: "percent 40 40 = 100"
  by code_simp

lemma example_percent_5: "percent 5 10 = 50"
  by code_simp

subsection \<open>The rounding error\<close>

lemma fl_error:
  assumes "0 \<le> x"
  shows "\<bar>fl x - x\<bar> \<le> x / 2 ^ 53"
proof (cases "x = 0")
  case True
  then show ?thesis by simp
next
  case False
  with assms have x: "0 < x" by simp
  define e where "e = binade x"
  define mant where "mant = x * 2 powi (52 - e)"
  define m where "m = round_half_even mant"
  have f: "fl x = of_int m * 2 powi (e - 52)"
    by (simp add: fl_pos_eq [OF x] m_def mant_def e_def)
  have one: "(2::rat) powi (52 - e) * 2 powi (e - 52) = 1"
    by (simp flip: pow2_add)
  have "mant * 2 powi (e - 52) = x * (2 powi (52 - e) * 2 powi (e - 52))"
    by (simp add: mant_def)
  then have xm: "x = mant * 2 powi (e - 52)" by (simp add: one)
  have "fl x - x = (of_int m - mant) * 2 powi (e - 52)"
    by (simp add: f left_diff_distrib) (rule xm)
  then have "\<bar>fl x - x\<bar> = \<bar>of_int m - mant\<bar> * 2 powi (e - 52)"
    by (simp add: abs_mult)
  also have "\<dots> \<le> (1 / 2) * 2 powi (e - 52)"
    using round_half_even_near [of mant]
    by (intro mult_right_mono) (simp_all add: m_def)
  also have "\<dots> = 2 powi e / 2 ^ 53"
  proof -
    have "(2::rat) powi e = 2 powi (52 + (e - 52))"
      by (rule arg_cong [where f = "\<lambda>n. 2 powi n"]) simp
    also have "\<dots> = 2 powi 52 * 2 powi (e - 52)" by (rule pow2_add)
    finally show ?thesis by simp
  qed
  also have "\<dots> \<le> x / 2 ^ 53"
    using binade_spec(1) [OF x] by (simp add: e_def divide_right_mono)
  finally show ?thesis .
qed

lemma fl_between:
  assumes "0 \<le> lo" and "lo \<le> x" and "x \<le> hi"
  shows "lo * (1 - 1 / 2 ^ 53) \<le> fl x" and "fl x \<le> hi * (1 + 1 / 2 ^ 53)"
proof -
  have x: "0 \<le> x" using assms by simp
  define d where "d = x / 2 ^ 53"
  from fl_error [OF x] have "\<bar>fl x - x\<bar> \<le> d" by (simp only: d_def)
  then have "x - d \<le> fl x" and "fl x \<le> x + d" by linarith+
  then have l: "x - x / 2 ^ 53 \<le> fl x" and u: "fl x \<le> x + x / 2 ^ 53"
    by (simp_all only: d_def)
  have "lo * (1 - 1 / 2 ^ 53) \<le> x * (1 - 1 / 2 ^ 53)"
    using assms(2) by (intro mult_right_mono) simp_all
  also have "\<dots> = x - x / 2 ^ 53" by (simp add: algebra_simps)
  finally show "lo * (1 - 1 / 2 ^ 53) \<le> fl x" using l by simp
  have "x + x / 2 ^ 53 = x * (1 + 1 / 2 ^ 53)" by (simp add: algebra_simps)
  also have "\<dots> \<le> hi * (1 + 1 / 2 ^ 53)"
    using assms(3) by (intro mult_right_mono) simp_all
  finally show "fl x \<le> hi * (1 + 1 / 2 ^ 53)" using u by simp
qed

lemma rounding_factors:
  "(1 + 1 / 2 ^ 53) * (1 + 1 / 2 ^ 53) * (1 + 1 / 2 ^ 53) / (1 - 1 / 2 ^ 53) \<le> (1 + 1 / 10 ^ 15 :: rat)"
  "(1 - 1 / 10 ^ 15 :: rat) \<le> (1 - 1 / 2 ^ 53) * (1 - 1 / 2 ^ 53) * (1 - 1 / 2 ^ 53) / (1 + 1 / 2 ^ 53)"
  by simp_all

lemma Math_round_near: "\<bar>of_int (Math_round x) - x\<bar> \<le> 1 / 2"
  unfolding Math_round_def by linarith

lemma percent_near:
  assumes "l \<le> t" and "0 < t"
  shows "\<bar>of_int (percent l t) - 100 * of_nat l / of_nat t\<bar> \<le> (1 / 2 + 1 / 10 ^ 13 :: rat)"
proof -
  define u :: rat where "u = 1 / 2 ^ 53"
  define L :: rat where "L = of_nat l"
  define T :: rat where "T = of_nat t"
  define X where "X = 100 * L / T"
  have u: "0 < u" "u < 1" by (simp_all add: u_def)
  have L: "0 \<le> L" and T: "0 < T" and LT: "L \<le> T"
    using assms by (simp_all add: L_def T_def)
  have X: "0 \<le> X" "X \<le> 100" using L T LT by (simp_all add: X_def pos_divide_le_eq)
  define a where "a = fl L"
  define b where "b = fl T"
  define q where "q = a / b"
  define r where "r = fl q * 100"
  define y where "y = fl r"
  have p: "percent l t = Math_round y"
    by (simp add: percent_def y_def r_def q_def a_def b_def L_def T_def)
  note fb = fl_between [folded u_def]
  have T0: "0 \<le> T" using T by simp
  have a: "L * (1 - u) \<le> a" "a \<le> L * (1 + u)"
    unfolding a_def by (rule fb(1) [OF L order_refl order_refl], rule fb(2) [OF L order_refl order_refl])
  have b: "T * (1 - u) \<le> b" "b \<le> T * (1 + u)"
    unfolding b_def by (rule fb(1) [OF T0 order_refl order_refl], rule fb(2) [OF T0 order_refl order_refl])
  have bl: "0 < T * (1 - u)" using T u by simp
  have bp: "0 < b" using bl b(1) by simp
  have a0: "0 \<le> L * (1 - u)" using L u by simp
  have q: "L * (1 - u) / (T * (1 + u)) \<le> q" "q \<le> L * (1 + u) / (T * (1 - u))"
    unfolding q_def
    using a b bl bp a0 by (auto intro!: frac_le)
  have q0: "0 \<le> L * (1 - u) / (T * (1 + u))" using a0 T u by simp
  have fq: "L * (1 - u) / (T * (1 + u)) * (1 - u) \<le> fl q"
    "fl q \<le> L * (1 + u) / (T * (1 - u)) * (1 + u)"
    by (rule fb(1) [OF q0 q], rule fb(2) [OF q0 q])
  have r: "L * (1 - u) / (T * (1 + u)) * (1 - u) * 100 \<le> r"
    "r \<le> L * (1 + u) / (T * (1 - u)) * (1 + u) * 100"
    unfolding r_def
    by (rule mult_right_mono [OF fq(1)], simp, rule mult_right_mono [OF fq(2)], simp)
  have r0: "0 \<le> L * (1 - u) / (T * (1 + u)) * (1 - u) * 100"
    by (intro mult_nonneg_nonneg q0) (use u in simp_all)
  have y: "L * (1 - u) / (T * (1 + u)) * (1 - u) * 100 * (1 - u) \<le> y"
    "y \<le> L * (1 + u) / (T * (1 - u)) * (1 + u) * 100 * (1 + u)"
    unfolding y_def by (rule fb(1) [OF r0 r], rule fb(2) [OF r0 r])
  have up: "L * (1 + u) / (T * (1 - u)) * (1 + u) * 100 * (1 + u)
      = X * ((1 + u) * (1 + u) * (1 + u) / (1 - u))"
    by (simp add: X_def)
  have lo: "L * (1 - u) / (T * (1 + u)) * (1 - u) * 100 * (1 - u)
      = X * ((1 - u) * (1 - u) * (1 - u) / (1 + u))"
    by (simp add: X_def)
  have "y \<le> X * (1 + 1 / 10 ^ 15)"
    using y(2) X(1) rounding_factors(1) [folded u_def]
    unfolding up by (meson mult_left_mono order_trans)
  then have yu: "y \<le> X + 1 / 10 ^ 13"
    using X(2) by (simp add: algebra_simps)
  have "X * (1 - 1 / 10 ^ 15) \<le> y"
    using y(1) X(1) rounding_factors(2) [folded u_def]
    unfolding lo by (meson mult_left_mono order_trans)
  then have yl: "X - 1 / 10 ^ 13 \<le> y"
    using X(2) by (simp add: algebra_simps)
  from Math_round_near [of y] yu yl
  have "\<bar>of_int (percent l t) - X\<bar> \<le> 1 / 2 + 1 / 10 ^ 13"
    unfolding p by linarith
  then show ?thesis unfolding X_def L_def T_def .
qed

section \<open>Upload progress: the tasks of one invocation\<close>

subsection \<open>The tasks with one id, after each updater\<close>

lemma task_items_uploads [simp]:
  "task_items k (s\<lparr>uploads := us\<rparr>) = filter (\<lambda>u. item_id u = k) us"
  by (simp add: task_items_def)

lemma filter_set_error:
  "filter (\<lambda>u. item_id u = k) (set_error k' us) =
     (if k' = k then map (\<lambda>u. u\<lparr>status := Error\<rparr>) (filter (\<lambda>u. item_id u = k) us)
      else filter (\<lambda>u. item_id u = k) us)"
proof (cases "k' = k")
  case True
  then show ?thesis by (induction us) (simp_all add: set_error_def)
next
  case False
  then show ?thesis by (induction us) (simp_all add: set_error_def)
qed

lemma filter_set_progress:
  "filter (\<lambda>u. item_id u = k) (set_progress k' p us) =
     (if k' = k then map (\<lambda>u. u\<lparr>progress := p\<rparr>) (filter (\<lambda>u. item_id u = k) us)
      else filter (\<lambda>u. item_id u = k) us)"
proof (cases "k' = k")
  case True
  then show ?thesis by (induction us) (simp_all add: set_progress_def)
next
  case False
  then show ?thesis by (induction us) (simp_all add: set_progress_def)
qed

lemma filter_set_completed:
  "filter (\<lambda>u. item_id u = k) (set_completed k' us) =
     (if k' = k
      then map (\<lambda>u. u\<lparr>progress := Num 100, status := Completed\<rparr>) (filter (\<lambda>u. item_id u = k) us)
      else filter (\<lambda>u. item_id u = k) us)"
proof (cases "k' = k")
  case True
  then show ?thesis by (induction us) (simp_all add: set_completed_def)
next
  case False
  then show ?thesis by (induction us) (simp_all add: set_completed_def)
qed

lemma filter_remove_item:
  "filter (\<lambda>u. item_id u = k) (remove_item k' us) =
     filter (\<lambda>u. item_id u \<noteq> k') (filter (\<lambda>u. item_id u = k) us)"
  by (induction us) (simp_all add: remove_item_def)

lemma items_catch:
  "task_items k (uploadFile_catch c m s) =
     (if call_uploadId (calls s ! c) = k then map (\<lambda>u. u\<lparr>status := Error\<rparr>) (task_items k s)
      else task_items k s)"
  by (simp add: task_items_def catch_fields filter_set_error)

lemma items_finish: "task_items k (uploadFile_finish c s) = task_items k s"
  by (simp add: task_items_def finish_fields)

lemma items_set_phase: "task_items k (set_phase c ph s) = task_items k s"
  by (simp add: task_items_def)

lemma items_requests: "task_items k (s\<lparr>requests := r\<rparr>) = task_items k s"
  by (simp add: task_items_def)

lemma calls_uploads_update: "calls (s\<lparr>uploads := us\<rparr>) = calls s"
  by simp

lemma items_resume_other:
  assumes "call_uploadId (calls s ! c) \<noteq> k"
  shows "task_items k (uploadFile_resume c r s) = task_items k s"
  using assms
  by (simp add: uploadFile_resume_def Let_def items_catch items_finish items_set_phase
      items_requests filter_set_completed task_items_def [of k s]
      split: promise_result.splits parsed_json.splits)

lemma items_resume_own:
  assumes "call_uploadId (calls s ! c) = k"
  shows "task_items k (uploadFile_resume c r s) = map (\<lambda>u. u\<lparr>status := Error\<rparr>) (task_items k s)
       \<or> task_items k (uploadFile_resume c r s)
           = map (\<lambda>u. u\<lparr>progress := Num 100, status := Completed\<rparr>) (task_items k s)
       \<or> task_items k (uploadFile_resume c r s)
           = map (\<lambda>u. u\<lparr>status := Error\<rparr>)
               (map (\<lambda>u. u\<lparr>progress := Num 100, status := Completed\<rparr>) (task_items k s))"
  using assms
  by (simp add: uploadFile_resume_def Let_def items_catch items_finish items_set_phase
      items_requests filter_set_completed task_items_def [of k s]
      split: promise_result.splits parsed_json.splits)

lemma items_moved_other:
  assumes "call_uploadId (calls s ! c) \<noteq> k"
  shows "task_items k (uploadFile_moved c r s) = task_items k s"
  using assms
  by (simp add: uploadFile_moved_def items_catch items_finish split: move_result.splits)

lemma items_moved_own:
  assumes "call_uploadId (calls s ! c) = k"
  shows "task_items k (uploadFile_moved c r s) = task_items k s
       \<or> task_items k (uploadFile_moved c r s) = map (\<lambda>u. u\<lparr>status := Error\<rparr>) (task_items k s)"
  using assms
  by (simp add: uploadFile_moved_def items_catch items_finish split: move_result.splits)

lemma items_start:
  assumes "k \<notin> fst ` set files"
  shows "task_items k (startRealUpload props files s) = task_items k s"
proof (cases "truthy (token props)")
  case True
  have "filter (\<lambda>u. item_id u = k) (map (\<lambda>(k, f). new_item k f) files) = []"
    using assms by (induction files) (auto simp: new_item_def)
  with True show ?thesis
    by (simp add: startRealUpload_token task_items_def)
next
  case False
  have a: "filter (\<lambda>u. item_id u = k) (map (\<lambda>(k, f). (new_item k f)\<lparr>status := Error\<rparr>) files) = []"
    using assms by (induction files) (auto simp: new_item_def)
  have b: "filter (\<lambda>u. item_id u = k) (map (mark_error (fst ` set files)) us)
         = filter (\<lambda>u. item_id u = k) us" for us
    using assms by (induction us) (simp_all add: mark_error_def)
  from False show ?thesis
    by (simp add: startRealUpload_no_token task_items_def a b)
qed

subsection \<open>The upload ids of the invocations\<close>

lemma ids_set_phase:
  "map call_uploadId (calls (set_phase c ph s)) = map call_uploadId (calls s)"
  by (rule nth_equalityI) simp_all

lemma ids_catch:
  "map call_uploadId (calls (uploadFile_catch c m s)) = map call_uploadId (calls s)"
  by (simp add: uploadFile_catch_def Let_def ids_set_phase)

lemma ids_finish:
  "map call_uploadId (calls (uploadFile_finish c s)) = map call_uploadId (calls s)"
  by (simp add: uploadFile_finish_def Let_def ids_set_phase)

lemma ids_resume:
  "map call_uploadId (calls (uploadFile_resume c r s)) = map call_uploadId (calls s)"
  by (simp add: uploadFile_resume_def Let_def ids_catch ids_finish ids_set_phase
      split: promise_result.splits parsed_json.splits)

lemma ids_moved:
  "map call_uploadId (calls (uploadFile_moved c r s)) = map call_uploadId (calls s)"
  by (simp add: uploadFile_moved_def ids_catch ids_finish split: move_result.splits)

lemma ids_start:
  "\<exists>new. map call_uploadId (calls (startRealUpload props files s)) = map call_uploadId (calls s) @ new
     \<and> set new \<subseteq> fst ` set files"
proof (cases "truthy (token props)")
  case True
  have "map call_uploadId (map (\<lambda>(k, f). \<lparr>call_uploadId = k, call_file = f,
          call_props = props, call_phase = AwaitXhr\<rparr>) files) = map fst files"
    by (induction files) auto
  with True show ?thesis by (simp add: startRealUpload_token)
next
  case False
  then show ?thesis by (simp add: startRealUpload_no_token)
qed

lemma ids_step:
  "\<exists>new. map call_uploadId (calls (upload_step e s)) = map call_uploadId (calls s) @ new
     \<and> set new \<subseteq> set (new_ids [e])"
proof (cases e)
  case (StartRealUpload props files)
  then show ?thesis using ids_start [of props files s] by simp
qed (simp_all add: ids_resume ids_moved removeUpload_def)

lemma calls_structure:
  assumes "c < length (calls s)" and "only_call c s"
    and "map call_uploadId (calls s') = map call_uploadId (calls s) @ new"
    and "call_uploadId (calls s ! c) \<notin> set new"
  shows "c < length (calls s')" and "call_uploadId (calls s' ! c) = call_uploadId (calls s ! c)"
    and "only_call c s'"
proof -
  have len: "length (calls s') = length (calls s) + length new"
    using arg_cong [OF assms(3), of length] by simp
  show c: "c < length (calls s')" using assms(1) len by simp
  have nth: "call_uploadId (calls s' ! i) = (map call_uploadId (calls s) @ new) ! i"
    if "i < length (calls s')" for i
    using that nth_map [of i "calls s'" call_uploadId] assms(3) by simp
  show same: "call_uploadId (calls s' ! c) = call_uploadId (calls s ! c)"
    using nth [OF c] assms(1) by (simp add: nth_append)
  show "only_call c s'"
    unfolding only_call_def
  proof (intro allI impI)
    fix c' assume c': "c' < length (calls s')" and ne: "c' \<noteq> c"
    show "call_uploadId (calls s' ! c') \<noteq> call_uploadId (calls s' ! c)"
    proof (cases "c' < length (calls s)")
      case True
      then have "call_uploadId (calls s' ! c') = call_uploadId (calls s ! c')"
        using nth [OF c'] by (simp add: nth_append)
      then show ?thesis
        using assms(2) True ne same by (simp add: only_call_def)
    next
      case False
      then have "call_uploadId (calls s' ! c') = new ! (c' - length (calls s))"
        using nth [OF c'] by (simp add: nth_append)
      moreover have "c' - length (calls s) < length new" using False c' len by simp
      ultimately have "call_uploadId (calls s' ! c') \<in> set new" by simp
      then show ?thesis using assms(4) same by metis
    qed
  qed
qed

subsection \<open>An invocation never waits for its request again\<close>

lemma await_xhr_backwards:
  assumes "c < length (calls s)" and "in_phase c AwaitXhr (upload_step e s)"
  shows "in_phase c AwaitXhr s"
proof (cases e)
  case (StartRealUpload props files)
  obtain new where "calls (startRealUpload props files s) = calls s @ new"
    using startRealUpload_calls by blast
  then show ?thesis
    using assms by (simp add: StartRealUpload in_phase_def nth_append)
next
  case (XhrProgress c' lc l t)
  then show ?thesis using assms(2) by (simp split: if_splits)
next
  case (XhrLoad c' st stx body)
  then show ?thesis
    using assms(2) by (cases "c' = c") (simp_all add: in_phase_resume_other split: if_splits)
next
  case (XhrError c')
  then show ?thesis
    using assms(2) by (cases "c' = c") (simp_all add: in_phase_resume_other split: if_splits)
next
  case (XhrTimeout c')
  then show ?thesis
    using assms(2) by (cases "c' = c") (simp_all add: in_phase_resume_other split: if_splits)
next
  case (MoveSettled c' r)
  show ?thesis
  proof (cases "c' = c")
    case True
    with MoveSettled assms show ?thesis
      by (simp add: uploadFile_moved_def catch_phase finish_phase
          split: if_splits move_result.splits)
  next
    case False
    with MoveSettled assms(2) show ?thesis
      by (simp add: in_phase_moved_other split: if_splits)
  qed
next
  case (RemovalTimer k')
  then show ?thesis using assms(2) by (simp add: in_phase_def split: if_splits)
next
  case (RemoveUpload k')
  then show ?thesis using assms(2) by (simp add: in_phase_def removeUpload_def)
qed

lemma resume_leaves_await_xhr:
  assumes "c < length (calls s)"
  shows "\<not> in_phase c AwaitXhr (uploadFile_resume c r s)"
  using assms
  by (simp add: uploadFile_resume_def Let_def catch_phase finish_phase
      split: promise_result.splits parsed_json.splits)

subsection \<open>Uniform progress of the tasks with one id\<close>

lemma uniform_error: "uniform v xs \<Longrightarrow> uniform v (map (\<lambda>u. u\<lparr>status := Error\<rparr>) xs)"
  by (simp add: uniform_def)

lemma uniform_completed:
  "uniform 100 (map (\<lambda>u. u\<lparr>progress := Num 100, status := Completed\<rparr>) xs)"
  by (simp add: uniform_def)

lemma uniform_progress:
  "none_completed xs \<Longrightarrow> uniform v (map (\<lambda>u. u\<lparr>progress := Num v\<rparr>) xs)"
  by (simp add: uniform_def none_completed_def)

lemma uniform_filter: "uniform v xs \<Longrightarrow> uniform v (filter P xs)"
  unfolding uniform_def by (metis filter_is_subset subsetD)

lemma none_completed_progress:
  "none_completed xs \<Longrightarrow> none_completed (map (\<lambda>u. u\<lparr>progress := p\<rparr>) xs)"
  by (simp add: none_completed_def)

lemma none_completed_filter: "none_completed xs \<Longrightarrow> none_completed (filter P xs)"
  unfolding none_completed_def by (metis filter_is_subset subsetD)

subsection \<open>One step, seen from the tasks of one invocation\<close>

lemma step_items:
  assumes c: "c < length (calls s)" and only: "only_call c s"
    and k: "call_uploadId (calls s ! c) = k" and fresh: "k \<notin> set (new_ids [e])"
  shows "(\<exists>l t. e = XhrProgress c True l t \<and> in_phase c AwaitXhr s \<and>
            task_items k (upload_step e s) = map (\<lambda>u. u\<lparr>progress := progress_of l t\<rparr>) (task_items k s))
       \<or> (\<not> in_phase c AwaitXhr (upload_step e s) \<and>
            (task_items k (upload_step e s) = map (\<lambda>u. u\<lparr>status := Error\<rparr>) (task_items k s)
             \<or> task_items k (upload_step e s)
                 = map (\<lambda>u. u\<lparr>progress := Num 100, status := Completed\<rparr>) (task_items k s)
             \<or> task_items k (upload_step e s)
                 = map (\<lambda>u. u\<lparr>status := Error\<rparr>)
                     (map (\<lambda>u. u\<lparr>progress := Num 100, status := Completed\<rparr>) (task_items k s))))
       \<or> (\<exists>P. task_items k (upload_step e s) = filter P (task_items k s))"
    (is "?A \<or> ?B \<or> ?C")
proof -
  have same: "task_items k (upload_step e s) = task_items k s \<Longrightarrow> ?C"
  proof -
    assume "task_items k (upload_step e s) = task_items k s"
    then have "task_items k (upload_step e s) = filter (\<lambda>_. True) (task_items k s)" by simp
    then show ?C by (rule exI [where x = "\<lambda>_. True"])
  qed
  have other: "call_uploadId (calls s ! c') \<noteq> k" if "c' < length (calls s)" "c' \<noteq> c" for c'
    using only that k by (simp add: only_call_def)
  have settle: "?B" if "upload_step e s = uploadFile_resume c r s" for r
    using items_resume_own [OF k, of r] resume_leaves_await_xhr [OF c, of r]
    unfolding that by (intro conjI)
  show ?thesis
  proof (cases e)
    case (StartRealUpload props files)
    with fresh have "k \<notin> fst ` set files" by simp
    then have "task_items k (upload_step e s) = task_items k s"
      by (simp add: StartRealUpload items_start)
    then show ?thesis using same by simp
  next
    case (XhrProgress c' lc l t)
    show ?thesis
    proof (cases "in_phase c' AwaitXhr s \<and> lc")
      case False
      then have "(in_phase c' AwaitXhr s \<and> lc) = False" by simp
      then have "upload_step e s = s" by (simp only: XhrProgress upload_step.simps if_False)
      then show ?thesis using same by simp
    next
      case True
      show ?thesis
      proof (cases "c' = c")
        case True
        with \<open>in_phase c' AwaitXhr s \<and> lc\<close>
        have "e = XhrProgress c True l t \<and> in_phase c AwaitXhr s \<and>
            task_items k (upload_step e s) = map (\<lambda>u. u\<lparr>progress := progress_of l t\<rparr>) (task_items k s)"
          by (simp add: XhrProgress k filter_set_progress task_items_def [of k s])
        then have ?A by blast
        then show ?thesis ..
      next
        case False
        with True have "call_uploadId (calls s ! c') \<noteq> k"
          using other [of c'] by (simp add: in_phase_def)
        with True have "task_items k (upload_step e s) = task_items k s"
          by (simp add: XhrProgress filter_set_progress task_items_def [of k s])
        then show ?thesis using same by simp
      qed
    qed
  next
    case (XhrLoad c' st stx body)
    show ?thesis
    proof (cases "in_phase c' AwaitXhr s")
      case False
      then have "upload_step e s = s" by (simp add: XhrLoad)
      then show ?thesis using same by simp
    next
      case True
      show ?thesis
      proof (cases "c' = c")
        case True
        with \<open>in_phase c' AwaitXhr s\<close>
        have "upload_step e s = uploadFile_resume c (xhr_onload st stx body) s"
          by (simp add: XhrLoad)
        then show ?thesis using settle by simp
      next
        case False
        with True have "call_uploadId (calls s ! c') \<noteq> k"
          using other [of c'] by (simp add: in_phase_def)
        with True have "task_items k (upload_step e s) = task_items k s"
          by (simp add: XhrLoad items_resume_other)
        then show ?thesis using same by simp
      qed
    qed
  next
    case (XhrError c')
    show ?thesis
    proof (cases "in_phase c' AwaitXhr s")
      case False
      then have "upload_step e s = s" by (simp add: XhrError)
      then show ?thesis using same by simp
    next
      case True
      show ?thesis
      proof (cases "c' = c")
        case True
        with \<open>in_phase c' AwaitXhr s\<close>
        have "upload_step e s = uploadFile_resume c xhr_onerror s"
          by (simp add: XhrError)
        then show ?thesis using settle by simp
      next
        case False
        with True have "call_uploadId (calls s ! c') \<noteq> k"
          using other [of c'] by (simp add: in_phase_def)
        with True have "task_items k (upload_step e s) = task_items k s"
          by (simp add: XhrError items_resume_other)
        then show ?thesis using same by simp
      qed
    qed
  next
    case (XhrTimeout c')
    show ?thesis
    proof (cases "in_phase c' AwaitXhr s")
      case False
      then have "upload_step e s = s" by (simp add: XhrTimeout)
      then show ?thesis using same by simp
    next
      case True
      show ?thesis
      proof (cases "c' = c")
        case True
        with \<open>in_phase c' AwaitXhr s\<close>
        have "upload_step e s = uploadFile_resume c xhr_ontimeout s"
          by (simp add: XhrTimeout)
        then show ?thesis using settle by simp
      next
        case False
        with True have "call_uploadId (calls s ! c') \<noteq> k"
          using other [of c'] by (simp add: in_phase_def)
        with True have "task_items k (upload_step e s) = task_items k s"
          by (simp add: XhrTimeout items_resume_other)
        then show ?thesis using same by simp
      qed
    qed
  next
    case (MoveSettled c' r)
    show ?thesis
    proof (cases "in_phase c' AwaitMove s")
      case False
      then have "upload_step e s = s" by (simp add: MoveSettled)
      then show ?thesis using same by simp
    next
      case True
      then have st: "upload_step e s = uploadFile_moved c' r s" by (simp add: MoveSettled)
      show ?thesis
      proof (cases "c' = c")
        case True
        have "\<not> in_phase c AwaitXhr s" using \<open>in_phase c' AwaitMove s\<close> True
          by (simp add: in_phase_def)
        then have n: "\<not> in_phase c AwaitXhr (upload_step e s)"
          using await_xhr_backwards [OF c] by blast
        from items_moved_own [OF k, of r]
        show ?thesis
        proof
          assume "task_items k (uploadFile_moved c r s) = task_items k s"
          then show ?thesis using same st True by simp
        next
          assume "task_items k (uploadFile_moved c r s)
                    = map (\<lambda>u. u\<lparr>status := Error\<rparr>) (task_items k s)"
          then have ?B using n st True by simp
          then show ?thesis by simp
        qed
      next
        case False
        with True have "call_uploadId (calls s ! c') \<noteq> k"
          using other [of c'] by (simp add: in_phase_def)
        then have "task_items k (upload_step e s) = task_items k s"
          by (simp add: st items_moved_other)
        then show ?thesis using same by simp
      qed
    qed
  next
    case (RemovalTimer k')
    show ?thesis
    proof (cases "k' \<in> set (timers s)")
      case True
      then have "task_items k (upload_step e s) = filter (\<lambda>u. item_id u \<noteq> k') (task_items k s)"
        by (simp add: RemovalTimer task_items_def filter_remove_item)
      then have ?C by (rule exI [where x = "\<lambda>u. item_id u \<noteq> k'"])
      then show ?thesis by simp
    next
      case False
      then have "upload_step e s = s" by (simp add: RemovalTimer)
      then show ?thesis using same by simp
    qed
  next
    case (RemoveUpload k')
    have "task_items k (upload_step e s) = filter (\<lambda>u. item_id u \<noteq> k') (task_items k s)"
      by (simp add: RemoveUpload removeUpload_def task_items_def filter_remove_item)
    then have ?C by (rule exI [where x = "\<lambda>u. item_id u \<noteq> k'"])
    then show ?thesis by simp
  qed
qed

lemma reports_of_subset: "set (reports_of c es) \<subseteq> set (reports_of c (e # es))"
  by (cases e) auto

lemma reports_of_sorted_tail:
  "sorted (map fst (reports_of c (e # es))) \<Longrightarrow> sorted (map fst (reports_of c es))"
  by (cases e) (auto split: if_splits)

lemma new_ids_Cons: "set (new_ids (e # es)) = set (new_ids [e]) \<union> set (new_ids es)"
  by (cases e) auto

lemma step_inv:
  assumes inv: "progress_inv c k tot (reports_of c (e # es)) v s"
    and fresh: "k \<notin> set (new_ids [e])"
    and tot: "0 < tot"
    and rep: "\<forall>(l, t) \<in> set (reports_of c (e # es)). t = tot \<and> l \<le> tot"
    and srt: "sorted (map fst (reports_of c (e # es)))"
  shows "\<exists>v'. v \<le> v' \<and> progress_inv c k tot (reports_of c es) v' (upload_step e s)"
proof -
  define s' where "s' = upload_step e s"
  from inv have c: "c < length (calls s)" and only: "only_call c s"
    and k: "call_uploadId (calls s ! c) = k" and u: "uniform v (task_items k s)"
    and v: "0 \<le> v" "v \<le> 100"
    and aw: "in_phase c AwaitXhr s \<Longrightarrow>
               none_completed (task_items k s) \<and> (\<forall>(l, t) \<in> set (reports_of c (e # es)). v \<le> percent l tot)"
    by (simp_all add: progress_inv_def)
  obtain new where new: "map call_uploadId (calls s') = map call_uploadId (calls s) @ new"
    and sub: "set new \<subseteq> set (new_ids [e])"
    using ids_step [of e s] unfolding s'_def by blast
  from sub fresh k have nk: "call_uploadId (calls s ! c) \<notin> set new" by blast
  note S = calls_structure [OF c only new nk]
  have S2: "call_uploadId (calls s' ! c) = k" using S(2) k by simp
  have earlier: "in_phase c AwaitXhr s' \<Longrightarrow> in_phase c AwaitXhr s"
    unfolding s'_def by (rule await_xhr_backwards [OF c])
  have build: "progress_inv c k tot (reports_of c es) v' s'"
    if "uniform v' (task_items k s')" "0 \<le> v'" "v' \<le> 100"
      "in_phase c AwaitXhr s' \<Longrightarrow>
         none_completed (task_items k s') \<and> (\<forall>(l, t) \<in> set (reports_of c es). v' \<le> percent l tot)"
    for v'
    unfolding progress_inv_def using S(1) S(3) S2 that by blast
  from step_items [OF c only k fresh, folded s'_def]
  consider
    (own) l t where "e = XhrProgress c True l t" "in_phase c AwaitXhr s"
      "task_items k s' = map (\<lambda>u. u\<lparr>progress := progress_of l t\<rparr>) (task_items k s)"
  | (err) "\<not> in_phase c AwaitXhr s'"
      "task_items k s' = map (\<lambda>u. u\<lparr>status := Error\<rparr>) (task_items k s)"
  | (fin) "\<not> in_phase c AwaitXhr s'"
      "task_items k s' = map (\<lambda>u. u\<lparr>progress := Num 100, status := Completed\<rparr>) (task_items k s)
       \<or> task_items k s' = map (\<lambda>u. u\<lparr>status := Error\<rparr>)
                     (map (\<lambda>u. u\<lparr>progress := Num 100, status := Completed\<rparr>) (task_items k s))"
  | (sub) P where "task_items k s' = filter P (task_items k s)"
    by blast
  then have "\<exists>v'. v \<le> v' \<and> progress_inv c k tot (reports_of c es) v' s'"
  proof cases
    case own
    have r: "reports_of c (e # es) = (l, t) # reports_of c es" by (simp add: own(1))
    from rep r have t: "t = tot" and l: "l \<le> tot" by simp_all
    from aw [OF own(2)] r have nc: "none_completed (task_items k s)"
      and le: "v \<le> percent l tot" by simp_all
    have p: "progress_of l t = Num (percent l tot)" using tot t by (simp add: progress_of_def)
    have u': "uniform (percent l tot) (task_items k s')"
      unfolding own(3) p by (rule uniform_progress [OF nc])
    have nc': "none_completed (task_items k s')"
      unfolding own(3) by (rule none_completed_progress [OF nc])
    have later: "\<forall>(l', t') \<in> set (reports_of c es). percent l tot \<le> percent l' tot"
    proof (clarify)
      fix l' t' assume m: "(l', t') \<in> set (reports_of c es)"
      from srt r have "\<forall>x \<in> set (reports_of c es). l \<le> fst x" by simp
      with m have "l \<le> fst (l', t')" by (rule bspec [rotated])
      then have "l \<le> l'" by simp
      then show "percent l tot \<le> percent l' tot" by (rule percent_mono [OF _ tot])
    qed
    have "progress_inv c k tot (reports_of c es) (percent l tot) s'"
      using percent_range [OF l tot] u' nc' later by (intro build) simp_all
    with le show ?thesis by blast
  next
    case err
    have "progress_inv c k tot (reports_of c es) v s'"
      using err(1) v uniform_error [OF u] by (intro build) (simp_all add: err(2))
    then show ?thesis by blast
  next
    case fin
    have "uniform 100 (task_items k s')"
      using fin(2) uniform_completed [of "task_items k s"]
        uniform_error [OF uniform_completed [of "task_items k s"]] by metis
    then have "progress_inv c k tot (reports_of c es) 100 s'"
      using fin(1) by (intro build) simp_all
    with v(2) show ?thesis by blast
  next
    case sub
    have u': "uniform v (task_items k s')" unfolding sub by (rule uniform_filter [OF u])
    have "none_completed (task_items k s') \<and> (\<forall>(l, t) \<in> set (reports_of c es). v \<le> percent l tot)"
      if "in_phase c AwaitXhr s'"
    proof -
      from aw [OF earlier [OF that]] have nc: "none_completed (task_items k s)"
        and le: "\<forall>(l, t) \<in> set (reports_of c (e # es)). v \<le> percent l tot" by simp_all
      have "none_completed (task_items k s')" unfolding sub by (rule none_completed_filter [OF nc])
      moreover have "\<forall>(l, t) \<in> set (reports_of c es). v \<le> percent l tot"
        using le reports_of_subset [of c es e] by blast
      ultimately show ?thesis ..
    qed
    then have "progress_inv c k tot (reports_of c es) v s'"
      using u' v by (intro build) simp_all
    then show ?thesis by blast
  qed
  then show ?thesis unfolding s'_def .
qed

subsection \<open>The progress of one task along an event sequence\<close>

lemma uniform_le:
  assumes "uniform v xs" and "uniform v' ys" and "0 \<le> v" and "v \<le> v'" and "v' \<le> 100"
  shows "\<forall>u \<in> set xs. \<forall>u' \<in> set ys. progress_le (progress u) (progress u')"
  using assms by (simp add: uniform_def progress_le_def)

lemma trace_inv:
  assumes "progress_inv c k tot (reports_of c es) v s" and "k \<notin> set (new_ids es)" and "0 < tot"
    and "\<forall>(l, t) \<in> set (reports_of c es). t = tot \<and> l \<le> tot"
    and "sorted (map fst (reports_of c es))"
  shows "(\<forall>s' \<in> set (upload_trace es s). \<exists>v'. v \<le> v' \<and> v' \<le> 100 \<and> uniform v' (task_items k s'))
       \<and> sorted_wrt (task_progress_le k) (upload_trace es s)"
  using assms
proof (induction es arbitrary: s v)
  case Nil
  from Nil(1) have "uniform v (task_items k s)" and "v \<le> 100"
    by (simp_all add: progress_inv_def)
  then have "\<exists>v'. v \<le> v' \<and> v' \<le> 100 \<and> uniform v' (task_items k s)"
    by (intro exI [where x = v]) simp
  then show ?case by simp
next
  case (Cons e es)
  from Cons.prems(2) have fresh: "k \<notin> set (new_ids [e])" and fresh': "k \<notin> set (new_ids es)"
    using new_ids_Cons [of e es] by simp_all
  obtain v1 where v1: "v \<le> v1"
    and inv1: "progress_inv c k tot (reports_of c es) v1 (upload_step e s)"
    using step_inv [OF Cons.prems(1) fresh Cons.prems(3,4,5)] by blast
  have rep': "\<forall>(l, t) \<in> set (reports_of c es). t = tot \<and> l \<le> tot"
    using Cons.prems(4) reports_of_subset [of c es e] by blast
  note IH = Cons.IH [OF inv1 fresh' Cons.prems(3) rep' reports_of_sorted_tail [OF Cons.prems(5)]]
  from Cons.prems(1) have u: "uniform v (task_items k s)" and v: "0 \<le> v" "v \<le> 100"
    by (simp_all add: progress_inv_def)
  have tail: "\<exists>v'. v \<le> v' \<and> v' \<le> 100 \<and> uniform v' (task_items k s')"
    if "s' \<in> set (upload_trace es (upload_step e s))" for s'
  proof -
    from IH that obtain v' where "v1 \<le> v'" "v' \<le> 100" "uniform v' (task_items k s')" by blast
    with v1 show ?thesis by (intro exI [where x = v']) simp
  qed
  have le: "task_progress_le k s s'" if "s' \<in> set (upload_trace es (upload_step e s))" for s'
  proof -
    from tail [OF that] obtain v' where "v \<le> v'" "v' \<le> 100" "uniform v' (task_items k s')"
      by blast
    then show ?thesis
      unfolding task_progress_le_def using uniform_le [OF u _ v(1)] by blast
  qed
  have head: "\<exists>v'. v \<le> v' \<and> v' \<le> 100 \<and> uniform v' (task_items k s)"
    using u v(2) by (intro exI [where x = v]) simp
  show ?case
    using head tail le IH by simp
qed

lemma items_resume_resolved:
  assumes "call_uploadId (calls s ! c) = k"
  shows "\<forall>u \<in> set (task_items k (uploadFile_resume c (Resolved body) s)). progress u = Num 100"
  using assms
  by (auto simp add: uploadFile_resume_def Let_def items_catch items_finish items_set_phase
      items_requests filter_set_completed task_items_def [of k s]
      split: parsed_json.splits)

lemma step_progress:
  assumes "in_phase c AwaitXhr s" and "0 < t"
  shows "upload_step (XhrProgress c True l t) s =
           s\<lparr>uploads := set_progress (call_uploadId (calls s ! c)) (Num (percent l t)) (uploads s)\<rparr>"
  using assms by (simp add: progress_of_def)

lemma progress_monotone:
  assumes "in_phase c AwaitXhr s" and "only_call c s" and "k = call_uploadId (calls s ! c)"
    and "\<forall>u \<in> set (task_items k s). progress u = Num 0 \<and> status u = Uploading"
    and "k \<notin> set (new_ids es)" and "0 < tot"
    and "\<forall>(l, t) \<in> set (reports_of c es). t = tot \<and> l \<le> tot"
    and "sorted (map fst (reports_of c es))"
  shows "sorted_wrt (task_progress_le k) (upload_trace es s)"
    and "\<forall>s' \<in> set (upload_trace es s). \<forall>u \<in> set (task_items k s').
           \<exists>v. progress u = Num v \<and> 0 \<le> v \<and> v \<le> 100 \<and> (status u = Completed \<longrightarrow> v = 100)"
proof -
  have z: "\<forall>(l, t) \<in> set (reports_of c es). 0 \<le> percent l tot"
    using assms(7) percent_range [OF _ assms(6)] by blast
  have "progress_inv c k tot (reports_of c es) 0 s"
    unfolding progress_inv_def uniform_def none_completed_def
    using assms(1-4) z by (simp add: in_phase_def)
  note t = trace_inv [OF this assms(5-8)]
  from t show "sorted_wrt (task_progress_le k) (upload_trace es s)" by simp
  show "\<forall>s' \<in> set (upload_trace es s). \<forall>u \<in> set (task_items k s').
           \<exists>v. progress u = Num v \<and> 0 \<le> v \<and> v \<le> 100 \<and> (status u = Completed \<longrightarrow> v = 100)"
  proof (intro ballI)
    fix s' u assume "s' \<in> set (upload_trace es s)" and m: "u \<in> set (task_items k s')"
    with t obtain v' where "0 \<le> v'" "v' \<le> 100" "uniform v' (task_items k s')" by blast
    with m show "\<exists>v. progress u = Num v \<and> 0 \<le> v \<and> v \<le> 100 \<and> (status u = Completed \<longrightarrow> v = 100)"
      by (intro exI [where x = v']) (simp add: uniform_def)
  qed
qed

lemma map_progress_update:
  "map (progress \<circ> (\<lambda>u. u\<lparr>progress := p\<rparr>)) xs = replicate (length xs) p"
  by (induction xs) simp_all

lemma items_progress_own:
  assumes "in_phase c AwaitXhr s" and "0 < t"
  shows "map progress (task_items (call_uploadId (calls s ! c)) (upload_step (XhrProgress c True l t) s))
           = replicate (length (task_items (call_uploadId (calls s ! c)) s)) (Num (percent l t))"
  using assms
  by (simp add: progress_of_percent filter_set_progress map_progress_update
      task_items_def [of _ s])

lemma items_resume_resolved_all:
  assumes "call_uploadId (calls s ! c) = k"
  shows "map progress (task_items k (uploadFile_resume c (Resolved body) s))
           = replicate (length (task_items k s)) (Num 100)"
proof -
  have "length (task_items k (uploadFile_resume c (Resolved body) s)) = length (task_items k s)"
    using items_resume_own [OF assms, of "Resolved body"] by auto
  moreover have "\<forall>p \<in> set (map progress (task_items k (uploadFile_resume c (Resolved body) s))). p = Num 100"
    using items_resume_resolved [OF assms, of body] by simp
  ultimately show ?thesis
    by (metis length_map replicate_eqI)
qed

lemma example_started_items:
  "task_items ''upload-1'' example_started = [new_item ''upload-1'' example_file]"
  "in_phase 1 AwaitXhr example_started"
  "map call_uploadId (calls example_started) = [''upload-1'', ''upload-2'']"
  by (simp_all add: task_items_def example_started_eq new_item_def in_phase_def)

lemma example_only_call: "only_call 0 example_started"
  by (simp add: only_call_def example_started_eq less_Suc_eq numeral_2_eq_2)

lemma example_reports_facts:
  "new_ids example_reports = []"
  "reports_of 0 example_reports = [(10, 40), (23, 40), (40, 40)]"
  by (simp_all add: example_reports_def)

lemma example_loaded_resume:
  "example_loaded = uploadFile_resume 0 (Resolved (JsonValue (Some ''file-9'') None)) example_started"
  by (simp add: example_loaded_def example_started_facts(1) xhr_onload_def)

lemma example_trace:
  "map (\<lambda>s. map progress (uploads s)) (upload_trace example_reports example_started) =
     [[Num 0, Num 0], [Num 25, Num 0], [Num 25, Num 50], [Num 57, Num 50], [Num 57, Num 50],
      [Num 100, Num 50]]"
  by (simp add: example_reports_def example_started_eq in_phase_def progress_of_def
      example_percent_10 example_percent_5 example_percent_23 example_percent_40
      set_progress_def new_item_def)

text \<open>
  Claim C9, as the specification states it, at 23 of 40 bytes: the double-precision
  quotient 23 / 40 lies below 0.575, its product with 100 below 57.5, and the task shows
  57, whereas 100 * 23 / 40 = 57.5 rounds to 58.
\<close>

theorem progress_is_not_the_exact_rounding:
  "progress_of 23 40 = Num 57
   \<and> Math_round (100 * 23 / 40) = 58
   \<and> in_phase 0 AwaitXhr example_started
   \<and> map progress (uploads (upload_step (XhrProgress 0 True 23 40) example_started))
       = [Num 57, Num 0]"
proof -
  have a: "progress_of 23 40 = Num 57"
    by (simp add: progress_of_def example_percent_23)
  have b: "map progress (uploads (upload_step (XhrProgress 0 True 23 40) example_started))
       = [Num 57, Num 0]"
    by (simp add: example_started_eq in_phase_def progress_of_def example_percent_23
        set_progress_def new_item_def)
  show ?thesis
    by (intro conjI a exact_round_23_40 example_started_facts(1) b)
qed

text \<open>
  Claim C9, amended. Let invocation \<open>c\<close> wait for its request, let no other invocation
  and no batch enqueued later have its upload id \<open>k\<close>, and let the tasks with id \<open>k\<close> be
  new (progress 0, \<open>uploading\<close>). A length-computable progress event with
  \<open>loaded \<le> total\<close> and \<open>0 < total\<close> sets the progress of these tasks to
  \<open>Math.round((loaded / total) * 100)\<close> evaluated in double precision: an integer from 0
  to 100 that differs from 100 * loaded / total by at most 1/2 + 10^-13, and is 100 when
  \<open>loaded = total\<close>. If the events of \<open>c\<close> report one total and non-decreasing loaded
  counts bounded by it, then along every event sequence the progress of the tasks with id
  \<open>k\<close> is an integer from 0 to 100, never decreases, and is 100 whenever the status is
  \<open>completed\<close>; a resolved upload promise sets it to 100.
\<close>

theorem upload_progress_monotone:
  assumes "in_phase c AwaitXhr s" and "only_call c s" and "k = call_uploadId (calls s ! c)"
    and "\<forall>u \<in> set (task_items k s). progress u = Num 0 \<and> status u = Uploading"
    and "k \<notin> set (new_ids es)" and "0 < tot"
    and "\<forall>(l, t) \<in> set (reports_of c es). t = tot \<and> l \<le> tot"
    and "sorted (map fst (reports_of c es))"
    and "l \<le> tot"
  shows "map progress (task_items k (upload_step (XhrProgress c True l tot) s))
           = replicate (length (task_items k s)) (Num (percent l tot))
       \<and> 0 \<le> percent l tot \<and> percent l tot \<le> 100
       \<and> \<bar>of_int (percent l tot) - 100 * of_nat l / of_nat tot\<bar> \<le> (1 / 2 + 1 / 10 ^ 13 :: rat)
       \<and> percent tot tot = 100
       \<and> sorted_wrt (task_progress_le k) (upload_trace es s)
       \<and> (\<forall>s' \<in> set (upload_trace es s). \<forall>u \<in> set (task_items k s').
             \<exists>v. progress u = Num v \<and> 0 \<le> v \<and> v \<le> 100 \<and> (status u = Completed \<longrightarrow> v = 100))
       \<and> map progress (task_items k (uploadFile_resume c (Resolved body) s))
           = replicate (length (task_items k s)) (Num 100)"
proof -
  note m = progress_monotone [OF assms(1-8)]
  note r = percent_range [OF assms(9,6)]
  show ?thesis
    by (intro conjI items_progress_own [OF assms(1,6), of l, folded assms(3)]
        r percent_near [OF assms(9,6)]
        percent_full [OF assms(6)] m items_resume_resolved_all [OF assms(3) [symmetric]])
qed

text \<open>
  Claim C9, amended, at the first file of the batch of two, with progress events of both
  requests.
\<close>

theorem upload_progress_monotone_witness:
  "in_phase 0 AwaitXhr example_started
   \<and> map call_uploadId (calls example_started) = [''upload-1'', ''upload-2'']
   \<and> map progress (uploads example_started) = [Num 0, Num 0]
   \<and> map status (uploads example_started) = [Uploading, Uploading]
   \<and> new_ids example_reports = []
   \<and> reports_of 0 example_reports = [(10, 40), (23, 40), (40, 40)]
   \<and> map progress (task_items ''upload-1'' (upload_step (XhrProgress 0 True 23 40) example_started))
       = [Num 57]
   \<and> map (\<lambda>s. map progress (uploads s)) (upload_trace example_reports example_started) =
       [[Num 0, Num 0], [Num 25, Num 0], [Num 25, Num 50], [Num 57, Num 50], [Num 57, Num 50],
        [Num 100, Num 50]]
   \<and> map progress (task_items ''upload-1'' example_loaded) = [Num 100]"
proof -
  have h4: "\<forall>u \<in> set (task_items ''upload-1'' example_started).
              progress u = Num 0 \<and> status u = Uploading"
    by (simp add: example_started_items(1) new_item_def)
  have h5: "''upload-1'' \<notin> set (new_ids example_reports)"
    by (simp add: example_reports_facts(1))
  have h7: "\<forall>(l, t) \<in> set (reports_of 0 example_reports). t = 40 \<and> l \<le> 40"
    by (simp add: example_reports_facts(2))
  have h8: "sorted (map fst (reports_of 0 example_reports))"
    by (simp add: example_reports_facts(2))
  have h6: "(0::nat) < 40" and h9: "(23::nat) \<le> 40" by simp_all
  note w = upload_progress_monotone [OF example_started_facts(1) example_only_call
      example_started_facts(2) [symmetric] h4 h5 h6 h7 h8 h9,
      where body = "JsonValue (Some ''file-9'') None", folded example_loaded_resume]
  from w have a: "map progress (task_items ''upload-1'' (upload_step (XhrProgress 0 True 23 40) example_started))
       = [Num 57]"
    by (simp add: example_started_items(1) example_percent_23)
  from w have b: "map progress (task_items ''upload-1'' example_loaded) = [Num 100]"
    by (simp add: example_started_items(1))
  show ?thesis
    by (intro conjI example_started_facts(1) example_started_items(3) example_started_facts(5)
        example_started_facts(4) example_reports_facts a example_trace b)
qed

end
